theory Spec2Isabelle
  imports Complex_Main "HOL-Library.Word"
begin

unbundle bit_operations_syntax

section \<open>Shared conventions\<close>

text \<open>
  The engine is C++ compiled for a 64-bit machine. An \<open>int\<close> is a 32-bit two's complement
  value: it is modelled as an \<open>int\<close> and every arithmetic result that can leave the range is
  reduced into it (\<open>int32_of_int64\<close>), as the compiled code does. Conversions between integer
  types of different width or signedness are written out in the same way.
\<close>

definition tdiv :: "int \<Rightarrow> int \<Rightarrow> int" where
  \<comment> \<open>C++ integer division: the quotient is truncated towards zero.\<close>
  "tdiv a b = sgn a * sgn b * (\<bar>a\<bar> div \<bar>b\<bar>)"

definition int32_of_int64 :: "int \<Rightarrow> int" where
  \<comment> \<open>The cast \<open>(int)x\<close> of a 64-bit value: reduction modulo \<open>2^32\<close>, read as two's complement.\<close>
  "int32_of_int64 x = (x + 2 ^ 31) mod 2 ^ 32 - 2 ^ 31"


section \<open>Double precision arithmetic\<close>

text \<open>
  A finite \<open>double\<close> is modelled as the real number it denotes. Every arithmetic operation of
  the source returns the rounding of its exact result, and a decimal literal denotes the
  rounding of its value; the conversion of an \<open>int\<close> to \<open>double\<close> is exact. The two things that
  differ between machines and libraries, the rounding and the library function \<open>exp\<close>, are
  the fields of an \<open>fpu\<close>, a parameter of the functions below.

  \<open>round_double\<close> is the rounding of IEEE 754 binary64: to the nearest representable number,
  ties to the even significand, with 53 significant bits and the least exponent -1022
  (subnormal numbers below it). Numbers beyond the largest double would round to an
  infinity; the functions below stay far from them. \<open>ieee\<close> is the \<open>fpu\<close> with this rounding
  and a correctly rounded \<open>exp\<close>.
\<close>

definition rne :: "real \<Rightarrow> int" where
  \<comment> \<open>Rounding to the nearest integer, a tie to the even one.\<close>
  "rne x = (let f = \<lfloor>x\<rfloor>; r = x - of_int f
            in if r < 1 / 2 then f else if 1 / 2 < r then f + 1
               else if even f then f else f + 1)"

definition round_double :: "real \<Rightarrow> real" where
  "round_double x =
     (if x = 0 then 0
      else (let e = max \<lfloor>log 2 \<bar>x\<bar>\<rfloor> (- 1022); u = 2 powr of_int (e - 52)
            in of_int (rne (x / u)) * u))"

record fpu =
  rd :: "real \<Rightarrow> real"
  exp_d :: "real \<Rightarrow> real"

definition ieee :: fpu where
  "ieee = \<lparr>rd = round_double, exp_d = (\<lambda>x. round_double (exp x))\<rparr>"

definition fp_ok :: "fpu \<Rightarrow> bool" where
  \<comment> \<open>What the theorems use of an \<open>fpu\<close>: the rounding is monotone and leaves the numbers
      \<open>n / 2^j\<close> with \<open>|n| < 2^53\<close> and \<open>j \<le> 1000\<close> as they are; \<open>exp\<close> is never negative.\<close>
  "fp_ok fp \<longleftrightarrow>
     (\<forall>x y. x \<le> y \<longrightarrow> rd fp x \<le> rd fp y) \<and>
     (\<forall>n j. \<bar>n\<bar> < 2 ^ 53 \<and> j \<le> 1000 \<longrightarrow> rd fp (of_int n / 2 ^ j) = of_int n / 2 ^ j) \<and>
     (\<forall>x. 0 \<le> exp_d fp x)"

definition int_of_double :: "real \<Rightarrow> int" where
  \<comment> \<open>The conversion \<open>int(x)\<close>: the fractional part is discarded. A value outside the range of
      \<open>int\<close> is undefined in C++; the conversion instruction of x86-64 then gives \<open>-2^31\<close>.\<close>
  "int_of_double x =
     (let t = (if 0 \<le> x then \<lfloor>x\<rfloor> else \<lceil>x\<rceil>)
      in if - (2 ^ 31) \<le> t \<and> t < 2 ^ 31 then t else - (2 ^ 31))"

text \<open>Powers of two with integer exponents, and the exponent \<open>round_double\<close> uses.\<close>

definition p2 :: "int \<Rightarrow> real" where
  "p2 k = 2 powr of_int k"

definition dexp :: "real \<Rightarrow> int" where
  "dexp x = max \<lfloor>log 2 \<bar>x\<bar>\<rfloor> (- 1022)"


section \<open>Time management (timeman.cpp)\<close>

datatype TimeType = OptimumTime | MaxTime

definition gauss :: "fpu \<Rightarrow> int \<Rightarrow> real \<Rightarrow> real \<Rightarrow> real" where
  \<comment> \<open>\<open>exp(-(x - a) * (x - a) / b)\<close>: the difference is computed once and rounded, the negation
      is exact, the product and the quotient are rounded.\<close>
  "gauss fp x a b =
     (let d = rd fp (of_int x - a) in exp_d fp (rd fp (rd fp (- d * d) / b)))"

text \<open>
  \<open>remaining<T>(myTime, myInc, moveOverhead, movesToGo, ply)\<close>. The pair \<open>(TRatio, sd)\<close> is
  what the two branches on \<open>movesToGo\<close> leave in the local variables of the same name
  (\<open>sd\<close> keeps its initial value 8.5 in the moves-to-go branch). The literals 0.9, 5.6, 1.3,
  0.018 and 0.074 are not doubles and are rounded; the others are. \<open>num\<close> and \<open>den\<close> are the
  two operands of the division inside \<open>ratio\<close>. When \<open>den\<close> is 0 the quotient is an infinity or
  not a number: \<open>std::min(1.0, _)\<close> then gives 1.0, except when the product with \<open>TRatio\<close> is
  minus infinity, which \<open>int(_)\<close> turns into \<open>-2^31\<close>.
\<close>

definition remaining :: "fpu \<Rightarrow> TimeType \<Rightarrow> int \<Rightarrow> int \<Rightarrow> int \<Rightarrow> int \<Rightarrow> int \<Rightarrow> int" where
  "remaining fp T myTime myInc moveOverhead movesToGo ply =
    (let mn = tdiv (int32_of_int64 (ply + 1)) 2;
         (TRatio, sd) =
           (if movesToGo \<noteq> 0 then
              (let TRatio = rd fp (rd fp (if T = OptimumTime then 0.9 else 5.6) / of_int movesToGo)
               in (if mn \<le> 40 then rd fp (TRatio * gauss fp movesToGo 19.0 1600.0)
                   else rd fp (TRatio * rd fp 1.3)),
               rd fp 8.5)
            else
              (let sd = rd fp (1.0 + rd fp (rd fp (13.5 * of_int mn) / rd fp (500.0 + of_int mn)))
               in (rd fp (rd fp (if T = OptimumTime then 0.018 else 0.074) * sd), sd)));
         incUsage = rd fp (49.0 + rd fp (28.5 * gauss fp mn 20.0 465.0));
         num = rd fp (incUsage * of_int myInc);
         den = rd fp (of_int myTime * sd);
         hypMyTime = max 0 (int32_of_int64 (myTime - moveOverhead))
     in if den = 0 then (if num * TRatio < 0 then - (2 ^ 31) else hypMyTime)
        else int_of_double
               (rd fp (of_int hypMyTime * min 1.0 (rd fp (TRatio * rd fp (1.0 + rd fp (num / den)))))))"

text \<open>
  The part of \<open>Search::LimitsType\<close> that \<open>init\<close> reads and writes, for the side to move
  (\<open>limits.time[us]\<close>, \<open>limits.inc[us]\<close>), the three options it looks up, and the fields of
  \<open>TimeManagement\<close> it assigns. \<open>startTime\<close> is copied unchanged and is left out. The products
  of the nodes-as-time block are products of two \<open>int\<close>s.
\<close>

record LimitsType =
  time :: int
  inc :: int
  movestogo :: int
  npmsec :: int

record Options =
  Move_Overhead :: int
  nodestime :: int
  Ponder :: bool

record TimeManagement =
  optimumTime :: int
  maximumTime :: int
  availableNodes :: int

definition nodes_as_time :: "Options \<Rightarrow> LimitsType \<Rightarrow> TimeManagement \<Rightarrow> LimitsType \<times> TimeManagement" where
  \<comment> \<open>The block \<open>if (npmsec) { ... }\<close> of \<open>init\<close>.\<close>
  "nodes_as_time opts limits tm =
    (if nodestime opts \<noteq> 0 then
       (let tm1 = (if availableNodes tm = 0
                   then tm\<lparr>availableNodes := int32_of_int64 (nodestime opts * time limits)\<rparr>
                   else tm)
        in (limits\<lparr>time := int32_of_int64 (availableNodes tm1),
                   inc := int32_of_int64 (inc limits * nodestime opts),
                   npmsec := nodestime opts\<rparr>, tm1))
     else (limits, tm))"

definition init :: "fpu \<Rightarrow> Options \<Rightarrow> LimitsType \<Rightarrow> int \<Rightarrow> TimeManagement \<Rightarrow> LimitsType \<times> TimeManagement" where
  "init fp opts limits ply tm =
    (let (limits1, tm1) = nodes_as_time opts limits tm;
         moveOverhead = Move_Overhead opts;
         tm2 = tm1\<lparr>optimumTime := remaining fp OptimumTime (time limits1) (inc limits1)
                                       moveOverhead (movestogo limits1) ply\<rparr>;
         tm3 = tm2\<lparr>maximumTime := remaining fp MaxTime (time limits1) (inc limits1)
                                       moveOverhead (movestogo limits1) ply\<rparr>;
         tm4 = (if Ponder opts
                then tm3\<lparr>optimumTime := int32_of_int64 (optimumTime tm3 + tdiv (optimumTime tm3) 4)\<rparr>
                else tm3)
     in (limits1, tm4))"

definition valid_clock :: "LimitsType \<Rightarrow> int \<Rightarrow> bool" where
  \<comment> \<open>A clock the formula is meant for: time left, no negative increment, moves-to-go or ply,
      all of them values of an \<open>int\<close> (and \<open>ply + 1\<close> too).\<close>
  "valid_clock limits ply \<longleftrightarrow>
     0 < time limits \<and> time limits < 2 ^ 31 \<and> 0 \<le> inc limits \<and> inc limits < 2 ^ 31 \<and>
     0 \<le> movestogo limits \<and> movestogo limits < 2 ^ 31 \<and> 0 \<le> ply \<and> ply < 2 ^ 31 - 1"

text \<open>
  The values the local variables \<open>mn\<close>, \<open>sd\<close>, \<open>TRatio\<close> and \<open>hypMyTime\<close> of \<open>remaining\<close> hold,
  the second factor of the product inside \<open>ratio\<close>, and the \<open>double\<close> that \<open>remaining\<close> converts
  to \<open>int\<close>, as functions of the arguments they depend on. They serve to state facts about
  \<open>remaining\<close>; \<open>remaining_unfold\<close> and \<open>remaining_value\<close> below relate them to its definition.
\<close>

definition mn_of :: "int \<Rightarrow> int" where
  "mn_of ply = tdiv (int32_of_int64 (ply + 1)) 2"

definition sd_of :: "fpu \<Rightarrow> int \<Rightarrow> int \<Rightarrow> real" where
  "sd_of fp movesToGo ply =
     (if movesToGo \<noteq> 0 then rd fp 8.5
      else rd fp (1.0 + rd fp (rd fp (13.5 * of_int (mn_of ply)) / rd fp (500.0 + of_int (mn_of ply)))))"

definition TRatio_of :: "fpu \<Rightarrow> TimeType \<Rightarrow> int \<Rightarrow> int \<Rightarrow> real" where
  "TRatio_of fp T movesToGo ply =
     (if movesToGo \<noteq> 0 then
        (if mn_of ply \<le> 40
         then rd fp (rd fp (rd fp (if T = OptimumTime then 0.9 else 5.6) / of_int movesToGo)
                       * gauss fp movesToGo 19.0 1600.0)
         else rd fp (rd fp (rd fp (if T = OptimumTime then 0.9 else 5.6) / of_int movesToGo)
                       * rd fp 1.3))
      else rd fp (rd fp (if T = OptimumTime then 0.018 else 0.074) * sd_of fp movesToGo ply))"

definition factor_of :: "fpu \<Rightarrow> int \<Rightarrow> int \<Rightarrow> int \<Rightarrow> int \<Rightarrow> real" where
  "factor_of fp myTime myInc movesToGo ply =
     rd fp (1.0 + rd fp (rd fp (rd fp (49.0 + rd fp (28.5 * gauss fp (mn_of ply) 20.0 465.0)) * of_int myInc)
                         / rd fp (of_int myTime * sd_of fp movesToGo ply)))"

definition hyp_of :: "int \<Rightarrow> int \<Rightarrow> int" where
  "hyp_of myTime moveOverhead = max 0 (int32_of_int64 (myTime - moveOverhead))"

definition value_of :: "fpu \<Rightarrow> TimeType \<Rightarrow> int \<Rightarrow> int \<Rightarrow> int \<Rightarrow> int \<Rightarrow> int \<Rightarrow> real" where
  "value_of fp T myTime myInc moveOverhead movesToGo ply =
     rd fp (of_int (hyp_of myTime moveOverhead) *
            min 1 (rd fp (TRatio_of fp T movesToGo ply * factor_of fp myTime myInc movesToGo ply)))"

definition tm0 :: TimeManagement where
  \<comment> \<open>The global \<open>Time\<close> object before the first search of a game.\<close>
  "tm0 = \<lparr>optimumTime = 0, maximumTime = 0, availableNodes = 0\<rparr>"


section \<open>Transposition table (tt.cpp)\<close>

text \<open>
  The header that declares \<open>TTEntry\<close>, \<open>Cluster\<close>, \<open>ClusterSize\<close>, \<open>CacheLineSize\<close> and
  \<open>first_entry\<close> is not among the sources. The three constants are taken as parameters
  (a \<open>tt_layout\<close>), so every statement below holds for whatever values the header gives them,
  under the hypotheses it names.
\<close>

record tt_layout =
  ClusterSize :: nat
  sizeof_Cluster :: nat
  CacheLineSize :: nat

text \<open>
  Modelled from the spec: the fields of a slot. The code under verification reads and writes
  \<open>key16\<close>, \<open>genBound8\<close> and \<open>depth8\<close>; the move, score and static-evaluation fields are the
  remaining attributes the spec lists. \<open>depth8\<close> is read as a signed byte.
\<close>

record TTEntry =
  key16 :: "16 word"
  move16 :: "16 word"
  value16 :: "16 word"
  eval16 :: "16 word"
  genBound8 :: "8 word"
  depth8 :: "8 word"

text \<open>
  A cluster: its slots. The padding bytes that fill a cluster up to \<open>sizeof(Cluster)\<close> are
  read by no function and are left out.
\<close>

record Cluster =
  entry :: "TTEntry list"

definition zero_entry :: TTEntry where
  "zero_entry = \<lparr>key16 = 0, move16 = 0, value16 = 0, eval16 = 0, genBound8 = 0, depth8 = 0\<rparr>"

definition zero_cluster :: "tt_layout \<Rightarrow> Cluster" where
  \<comment> \<open>A cluster all of whose bytes are zero.\<close>
  "zero_cluster L = \<lparr>entry = replicate (ClusterSize L) zero_entry\<rparr>"

datatype tt_failure = Allocation_Failure | Msb_Of_Zero | Out_Of_Bounds

text \<open>
  The state: the members of the global table \<open>TT\<close> and the two globals \<open>use_large_pages\<close> and
  \<open>got_privileges\<close>. Pointers are 64-bit addresses, 0 being \<open>NULL\<close>. \<open>cells\<close> is the content
  of the \<open>clusterCount\<close> clusters that start at \<open>table\<close>.
\<close>

record tt_state =
  clusterCount :: nat
  table :: "64 word"
  mem :: "64 word"
  generation8 :: "8 word"
  mbSize_last_used :: nat
  large_pages_used :: bool
  cells :: "Cluster list"
  use_large_pages :: int
  got_privileges :: int

definition TT0 :: tt_state where
  \<comment> \<open>The globals at program start: \<open>TT\<close> is a namespace-scope object and starts
      zero-initialised; the two flags are initialised to -1.\<close>
  "TT0 = \<lparr>clusterCount = 0, table = 0, mem = 0, generation8 = 0, mbSize_last_used = 0,
          large_pages_used = False, cells = [], use_large_pages = - 1, got_privileges = - 1\<rparr>"

text \<open>
  What the operating system answers during one call of \<open>resize\<close>: the option
  \<open>Large Pages\<close>, whether the lock-memory privilege can be obtained, and the pointers that
  \<open>VirtualAlloc\<close> and \<open>calloc\<close> return (0 when they fail). Both allocators hand out zero-filled
  memory.
\<close>

record tt_os =
  Large_Pages :: bool
  Get_LockMemory_Privileges :: bool
  VirtualAlloc :: "64 word"
  calloc :: "64 word"

definition Try_Get_LockMemory_Privileges :: "tt_os \<Rightarrow> tt_state \<Rightarrow> tt_state" where
  "Try_Get_LockMemory_Privileges os s =
    (let s1 = s\<lparr>use_large_pages := 0\<rparr> in
     if \<not> Large_Pages os then s1
     else
       (let s2 = (if got_privileges s1 = - 1
                  then (if Get_LockMemory_Privileges os then s1\<lparr>got_privileges := 1\<rparr>
                        else s1\<lparr>got_privileges := 0\<rparr>)
                  else s1)
        in if got_privileges s2 = 0 then s2 else s2\<lparr>use_large_pages := 1\<rparr>))"

text \<open>
  Modelled from the spec: \<open>msb\<close>, the index of the most significant set bit, declared in a header
  that is not among the sources; the spec describes its use as \<open>floor(log2(_))\<close>. It is written
  here as a bit scan. The argument 0 has no set bit: \<open>resize\<close> below reports it as a failure.
\<close>

fun msb :: "nat \<Rightarrow> nat" where
  "msb n = (if n < 2 then 0 else Suc (msb (n div 2)))"

definition allocate :: "tt_os \<Rightarrow> tt_state \<Rightarrow> tt_state" where
  \<comment> \<open>The block \<open>if (use_large_pages < 1) { ... } else { ... }\<close> of \<open>resize\<close>.\<close>
  "allocate os s =
    (if use_large_pages s < 1 then s\<lparr>mem := calloc os, large_pages_used := False\<rparr>
     else if VirtualAlloc os = 0
          then s\<lparr>use_large_pages := 0, mem := calloc os, large_pages_used := False\<rparr>
          else s\<lparr>mem := VirtualAlloc os, large_pages_used := True\<rparr>)"

definition newClusterCount :: "tt_layout \<Rightarrow> nat \<Rightarrow> nat" where
  \<comment> \<open>\<open>size_t(1) << msb((mbSize * 1024 * 1024) / sizeof(Cluster))\<close>, in 64-bit \<open>size_t\<close>.\<close>
  "newClusterCount L mbSize = 2 ^ msb ((mbSize * 1024 * 1024) mod 2 ^ 64 div sizeof_Cluster L)"

definition resize :: "tt_layout \<Rightarrow> tt_os \<Rightarrow> nat \<Rightarrow> tt_state \<Rightarrow> tt_failure + tt_state" where
  "resize L os mbSize0 s =
    (let mbSize = (if mbSize0 = 0 then mbSize_last_used s else mbSize0) in
     if mbSize = 0 then Inr s
     else
       (let s1 = Try_Get_LockMemory_Privileges os (s\<lparr>mbSize_last_used := mbSize\<rparr>) in
        if (mbSize * 1024 * 1024) mod 2 ^ 64 div sizeof_Cluster L = 0 then Inl Msb_Of_Zero
        else if newClusterCount L mbSize = clusterCount s1 \<and>
                ((use_large_pages s1 = 1 \<and> large_pages_used s1) \<or>
                 (use_large_pages s1 = 0 \<and> \<not> large_pages_used s1))
        then Inr s1
        else
          (let s2 = allocate os (s1\<lparr>clusterCount := newClusterCount L mbSize\<rparr>) in
           if mem s2 = 0 then Inl Allocation_Failure
           else Inr (s2\<lparr>table := (mem s2 + word_of_nat (CacheLineSize L) - 1)
                                    AND NOT (word_of_nat (CacheLineSize L) - 1),
                         cells := replicate (clusterCount s2) (zero_cluster L)\<rparr>))))"

definition clear :: "tt_layout \<Rightarrow> tt_state \<Rightarrow> tt_state" where
  \<comment> \<open>\<open>memset(table, 0, clusterCount * sizeof(Cluster))\<close>.\<close>
  "clear L s = s\<lparr>cells := replicate (clusterCount s) (zero_cluster L)\<rparr>"

text \<open>
  Modelled from the spec: \<open>first_entry\<close>, declared in the missing header; the spec says that a
  key selects its cluster by its low bits. The result is the index of the cluster.
\<close>

definition first_entry :: "64 word \<Rightarrow> tt_state \<Rightarrow> nat" where
  "first_entry key s = unat (key AND (word_of_nat (clusterCount s) - 1))"

definition replace_value :: "8 word \<Rightarrow> TTEntry \<Rightarrow> int" where
  \<comment> \<open>\<open>depth8 - ((259 + generation8 - genBound8) & 0xFC) * 2\<close>, computed in \<open>int\<close>.\<close>
  "replace_value g e = sint (depth8 e) - ((259 + uint g - uint (genBound8 e)) AND 0xFC) * 2"

text \<open>
  \<open>probe\<close> returns \<open>found\<close>, the slot as (cluster index, index in the cluster), and the state,
  which it changes when it refreshes the generation of the slot it returns.
\<close>

definition probe :: "tt_layout \<Rightarrow> 64 word \<Rightarrow> tt_state \<Rightarrow> tt_failure + ((bool \<times> nat \<times> nat) \<times> tt_state)" where
  "probe L key s =
    (let c = first_entry key s in
     if length (cells s) \<le> c then Inl Out_Of_Bounds
     else
       (let tte = entry (cells s ! c);
            k16 = (ucast (drop_bit 48 key) :: 16 word)
        in case find (\<lambda>i. key16 (tte ! i) = 0 \<or> key16 (tte ! i) = k16) [0..<ClusterSize L] of
             Some i \<Rightarrow>
               (let e = tte ! i;
                    s' = (if (genBound8 e AND 0xFC) \<noteq> generation8 s \<and> key16 e \<noteq> 0
                          then s\<lparr>cells := (cells s)
                                   [c := \<lparr>entry = tte[i := e\<lparr>genBound8 := genBound8 e + 4\<rparr>]\<rparr>]\<rparr>
                          else s)
                in Inr ((key16 e \<noteq> 0, c, i), s'))
           | None \<Rightarrow>
               Inr ((False, c,
                     fold (\<lambda>i replace.
                             if replace_value (generation8 s) (tte ! replace)
                                  > replace_value (generation8 s) (tte ! i)
                             then i else replace)
                          [1..<ClusterSize L] 0), s)))"

definition hashfull :: "tt_layout \<Rightarrow> tt_state \<Rightarrow> tt_failure + int" where
  "hashfull L s =
    (if length (cells s) < 1000 div ClusterSize L then Inl Out_Of_Bounds
     else Inr (fold (\<lambda>i cnt.
                       fold (\<lambda>j cnt. if (genBound8 (entry (cells s ! i) ! j) AND 0xFC) = generation8 s
                                      then cnt + 1 else cnt)
                            [0..<ClusterSize L] cnt)
                    [0..<1000 div ClusterSize L] 0))"

text \<open>
  The file named \<open>hashfilename\<close>: its content as the sequence of cluster images it holds
  (\<open>None\<close> when it does not exist), whether it can be opened for writing, and how many clusters
  fit before the output stream goes bad. A cluster image is \<open>sizeof(Cluster)\<close> bytes.
\<close>

record hash_file_system =
  hashfile :: "Cluster list option"
  can_open_out :: bool
  write_room :: nat

definition save :: "hash_file_system \<Rightarrow> tt_state \<Rightarrow> bool \<times> hash_file_system" where
  "save fs s =
    (if can_open_out fs
     then (let img = take (clusterCount s) (cells s)
           in (length img \<le> write_room fs, fs\<lparr>hashfile := Some (take (write_room fs) img)\<rparr>))
     else (False, fs))"

definition file_size :: "tt_layout \<Rightarrow> hash_file_system \<Rightarrow> int" where
  \<comment> \<open>\<open>file.tellg()\<close> on a stream opened at its end: the byte length, or -1 when opening failed.\<close>
  "file_size L fs =
    (case hashfile fs of None \<Rightarrow> - 1 | Some img \<Rightarrow> int (length img * sizeof_Cluster L))"

definition load :: "tt_layout \<Rightarrow> tt_os \<Rightarrow> hash_file_system \<Rightarrow> tt_state \<Rightarrow> tt_failure + tt_state" where
  "load L os fs s =
    (case resize L os (nat (tdiv (tdiv (file_size L fs) 1024) 1024)) s of
       Inl e \<Rightarrow> Inl e
     | Inr s1 \<Rightarrow>
         (case hashfile fs of
            None \<Rightarrow> Inr s1
          | Some img \<Rightarrow>
              (let n = min (length img) (clusterCount s1)
               in Inr (s1\<lparr>cells := take n img @ drop n (cells s1)\<rparr>))))"

definition sized :: "tt_layout \<Rightarrow> tt_state \<Rightarrow> bool" where
  \<comment> \<open>What a successful \<open>resize\<close> with a size below \<open>2^44\<close> megabytes establishes.\<close>
  "sized L s \<longleftrightarrow>
     0 < mbSize_last_used s \<and> mbSize_last_used s < 2 ^ 44 \<and>
     clusterCount s = newClusterCount L (mbSize_last_used s) \<and>
     length (cells s) = clusterCount s"

definition Stockfish_layout :: tt_layout where
  \<comment> \<open>The values of the upstream engine: three slots and two padding bytes in 32 bytes.\<close>
  "Stockfish_layout = \<lparr>ClusterSize = 3, sizeof_Cluster = 32, CacheLineSize = 64\<rparr>"

definition plain_os :: tt_os where
  \<comment> \<open>Large pages switched off; \<open>calloc\<close> answers with some address.\<close>
  "plain_os = \<lparr>Large_Pages = False, Get_LockMemory_Privileges = False,
               VirtualAlloc = 0, calloc = 0x10040\<rparr>"


definition TT_16MB :: tt_state where
  \<comment> \<open>The table after \<open>resize(16)\<close> at program start, with the layout above and \<open>plain_os\<close>.\<close>
  "TT_16MB = \<lparr>clusterCount = 524288, table = 0x10040, mem = 0x10040, generation8 = 0,
             mbSize_last_used = 16, large_pages_used = False,
             cells = replicate 524288 (zero_cluster Stockfish_layout),
             use_large_pages = 0, got_privileges = - 1\<rparr>"

definition TT_16MB_stored :: tt_state where
  \<comment> \<open>That table in a later generation, with one slot of cluster 5 in use.\<close>
  "TT_16MB_stored =
     TT_16MB\<lparr>generation8 := 4,
             cells := (cells TT_16MB)
               [5 := \<lparr>entry = [\<lparr>key16 = 0xBEEF, move16 = 0x1234, value16 = 0x0010, eval16 = 0x0008,
                                genBound8 = 0x06, depth8 = 12\<rparr>, zero_entry, zero_entry]\<rparr>]\<rparr>"

definition empty_disk :: hash_file_system where
  \<comment> \<open>No hash file yet; the file can be created and there is room for \<open>2^30\<close> clusters.\<close>
  "empty_disk = \<lparr>hashfile = None, can_open_out = True, write_room = 2 ^ 30\<rparr>"




text \<open>
  The slots \<open>hashfull\<close> scans, as (cluster index, index in the cluster), whose generation
  bits equal the current generation.
\<close>

definition fresh_slots :: "tt_layout \<Rightarrow> tt_state \<Rightarrow> (nat \<times> nat) list" where
  "fresh_slots L s =
     filter (\<lambda>(i, j). (genBound8 (entry (cells s ! i) ! j) AND 0xFC) = generation8 s)
            (List.product [0..<1000 div ClusterSize L] [0..<ClusterSize L])"


section \<open>NUMA topology (numasf.h, numasf.cpp)\<close>

text \<open>
  \<open>NumaNode\<close>: the node number assigned by the operating system, the number of physical
  cores, and the set of logical processors of the node. The pointer \<open>cmhTable\<close> is null at
  construction and plays no part in the functions below.
\<close>

record NumaNode =
  nodeNumber :: int
  coreCount :: nat
  cpuBitset :: "nat set"

record NumaState =
  nodeVector :: "NumaNode list"
  coreCount :: nat

definition NumaNode_new :: "int \<Rightarrow> nat set \<Rightarrow> NumaNode" where
  \<comment> \<open>The constructor \<open>NumaNode(_nodeNumber, _cpuBitset)\<close>.\<close>
  "NumaNode_new n cpus = \<lparr>nodeNumber = n, coreCount = 0, cpuBitset = cpus\<rparr>"

text \<open>
  What the constructor of \<open>NumaState\<close> reads from the operating system, for the build that
  uses libnuma: whether \<open>numa_available()\<close> differs from -1; for each node number from 0 to
  \<open>numa_max_node()\<close> the processors \<open>numa_node_to_cpus\<close> reports, or \<open>None\<close> when the call
  fails; and the directories \<open>/sys/devices/system/cpu/cpuN\<close> in order. Of a directory the
  constructor uses the file \<open>online\<close> (missing, readable as the line \<open>1\<close>, or anything else) and
  the first integer of \<open>topology/thread_siblings_list\<close> (\<open>None\<close> when the file cannot be read
  as a line). A directory past the end of the list has no file \<open>online\<close>.
\<close>

datatype online_file = Online_Missing | Online_Other | Online_1

record cpu_dir =
  online :: online_file
  thread_siblings_first :: "int option"

record numa_os =
  numa_available :: bool
  numa_nodes :: "nat set option list"
  cpu_dirs :: "cpu_dir list"

definition discover_nodes :: "numa_os \<Rightarrow> NumaNode list" where
  \<comment> \<open>The loop \<open>for (int N = 0; N <= numa_max_node(); N++)\<close>.\<close>
  "discover_nodes os =
     List.map_filter (\<lambda>(N, r). map_option (NumaNode_new (int N)) r) (enumerate 0 (numa_nodes os))"

fun add_core :: "nat \<Rightarrow> NumaNode list \<Rightarrow> NumaNode list \<times> bool" where
  \<comment> \<open>The loop over the nodes: the first node whose mask holds cpu \<open>i\<close> gets one more core.\<close>
  "add_core i [] = ([], False)"
| "add_core i (node # nodes) =
     (if i \<in> cpuBitset node
      then (node\<lparr>NumaNode.coreCount := NumaNode.coreCount node + 1\<rparr> # nodes, True)
      else (let (nodes', hit) = add_core i nodes in (node # nodes', hit)))"

definition visit_cpu :: "cpu_dir \<Rightarrow> nat \<Rightarrow> NumaState \<Rightarrow> NumaState" where
  \<comment> \<open>The part of the loop body that reads \<open>thread_siblings_list\<close> of cpu \<open>i\<close>.\<close>
  "visit_cpu d i s =
     (case thread_siblings_first d of
        None \<Rightarrow> s
      | Some k \<Rightarrow>
          if k = int i
          then (let (nodes', hit) = add_core i (nodeVector s)
                in s\<lparr>nodeVector := nodes', coreCount := (if hit then coreCount s + 1 else coreCount s)\<rparr>)
          else s)"

fun scan_cpus :: "cpu_dir list \<Rightarrow> nat \<Rightarrow> NumaState \<Rightarrow> NumaState" where
  \<comment> \<open>The loop \<open>for (int i = 0; ; i++)\<close> from \<open>i > 0\<close> on: it ends at the first missing \<open>online\<close>.\<close>
  "scan_cpus [] i s = s"
| "scan_cpus (d # ds) i s =
     (case online d of
        Online_Missing \<Rightarrow> s
      | Online_Other \<Rightarrow> scan_cpus ds (Suc i) s
      | Online_1 \<Rightarrow> scan_cpus ds (Suc i) (visit_cpu d i s))"

definition discover :: "numa_os \<Rightarrow> NumaState" where
  \<comment> \<open>The constructor up to, and without, the block that creates the dummy node.\<close>
  "discover os =
     (let s0 = \<lparr>nodeVector = [], coreCount = 0\<rparr> in
      if numa_available os
      then (let s1 = s0\<lparr>nodeVector := discover_nodes os\<rparr>;
                cpu0 = (case cpu_dirs os of [] \<Rightarrow> \<lparr>online = Online_Missing, thread_siblings_first = None\<rparr>
                                          | d # _ \<Rightarrow> d)
            in scan_cpus (tl (cpu_dirs os)) 1 (visit_cpu cpu0 0 s1))
      else s0)"

definition dummy_node :: NumaNode where
  \<comment> \<open>\<open>NumaNode(-1, cpuBitset)\<close> after \<open>numa_bitmask_setall(cpuBitset)\<close>.\<close>
  "dummy_node = NumaNode_new (- 1) UNIV"

definition create_dummy :: "NumaState \<Rightarrow> NumaState" where
  \<comment> \<open>The two \<open>if\<close> blocks at the end of the constructor.\<close>
  "create_dummy s =
     (let s1 = (if coreCount s = 0 then s\<lparr>nodeVector := [], coreCount := 1\<rparr> else s)
      in if length (nodeVector s1) = 0 then s1\<lparr>nodeVector := nodeVector s1 @ [dummy_node]\<rparr> else s1)"

definition NumaState_new :: "numa_os \<Rightarrow> NumaState" where
  "NumaState_new os = create_dummy (discover os)"

datatype numa_fault = Division_By_Zero | Empty_Node_Vector

fun segment_walk :: "NumaNode list \<Rightarrow> nat \<Rightarrow> int \<Rightarrow> nat option" where
  \<comment> \<open>The \<open>for\<close> loop of \<open>nodeForThread\<close> from node index \<open>n\<close> on. \<open>i -= coreCount\<close> is computed in
      \<open>size_t\<close> and stored in an \<open>int\<close>.\<close>
  "segment_walk [] n i = None"
| "segment_walk (node # nodes) n i =
     (let i' = int32_of_int64 (i - int (NumaNode.coreCount node))
      in if i' < 0 then Some n else segment_walk nodes (Suc n) i')"

text \<open>
  \<open>nodeForThread\<close> returns a pointer into \<open>nodeVector\<close>: here the index of the node. The
  function only reads the registry.
\<close>

definition nodeForThread :: "NumaState \<Rightarrow> nat \<Rightarrow> numa_fault + nat" where
  "nodeForThread s threadIdx =
     (if length (nodeVector s) = 1 then Inr 0
      else if coreCount s = 0 then Inl Division_By_Zero
      else (case segment_walk (nodeVector s) 0 (int32_of_int64 (int (threadIdx mod coreCount s))) of
              Some n \<Rightarrow> Inr n
            | None \<Rightarrow> if nodeVector s = [] then Inl Empty_Node_Vector else Inr 0))"

text \<open>
  The algorithm in the words of the spec: the line formed by concatenating each node's
  core-count-sized segment in registry order; a position on the line belongs to the node
  whose segment contains it.
\<close>

definition segment_line :: "NumaNode list \<Rightarrow> nat list" where
  "segment_line nodes =
     concat (map (\<lambda>n. replicate (NumaNode.coreCount (nodes ! n)) n) [0..<length nodes])"

definition two_by_four :: NumaState where
  \<comment> \<open>The registry of the spec's scenario: two nodes with four cores each.\<close>
  "two_by_four =
     \<lparr>nodeVector = [\<lparr>nodeNumber = 0, coreCount = 4, cpuBitset = {0, 1, 2, 3}\<rparr>,
                    \<lparr>nodeNumber = 1, coreCount = 4, cpuBitset = {4, 5, 6, 7}\<rparr>],
      coreCount = 8\<rparr>"


text \<open>
  The line of \<open>segment_line\<close> with the nodes numbered from \<open>n\<close> on, for the induction over
  the loop of \<open>nodeForThread\<close>.
\<close>

definition line_from :: "nat \<Rightarrow> NumaNode list \<Rightarrow> nat list" where
  "line_from n nodes =
     concat (map (\<lambda>k. replicate (NumaNode.coreCount (nodes ! k)) (n + k)) [0..<length nodes])"

definition counted :: "NumaState \<Rightarrow> bool" where
  \<comment> \<open>The total core count is the sum of the core counts of the nodes.\<close>
  "counted s \<longleftrightarrow> coreCount s = sum_list (map NumaNode.coreCount (nodeVector s))"

definition coreless_os :: numa_os where
  \<comment> \<open>libnuma reports two nodes (and fails for node 1), but no cpu directory can be read.\<close>
  "coreless_os = \<lparr>numa_available = True, numa_nodes = [Some {0, 1}, None, Some {2, 3}], cpu_dirs = []\<rparr>"


section \<open>Properties of the rounding\<close>

lemma rne_of_int: "rne (of_int k) = k"
  by (simp add: rne_def)

lemma rne_range: "\<lfloor>x\<rfloor> \<le> rne x \<and> rne x \<le> \<lfloor>x\<rfloor> + 1"
  by (simp add: rne_def Let_def)

lemma rne_lower:
  assumes "of_int k \<le> x"
  shows "k \<le> rne x"
proof -
  have "k \<le> \<lfloor>x\<rfloor>" using assms by (simp add: le_floor_iff)
  then show ?thesis using rne_range[of x] by linarith
qed

lemma rne_upper:
  assumes "x \<le> of_int k"
  shows "rne x \<le> k"
proof (cases "x = of_int k")
  case True
  then show ?thesis by (simp add: rne_of_int)
next
  case False
  then have "x < of_int k" using assms by simp
  then have "\<lfloor>x\<rfloor> < k" by (simp add: floor_less_iff)
  then show ?thesis using rne_range[of x] by linarith
qed

lemma rne_mono:
  assumes "x \<le> y"
  shows "rne x \<le> rne y"
proof -
  have fg: "\<lfloor>x\<rfloor> \<le> \<lfloor>y\<rfloor>" using assms by (rule floor_mono)
  show ?thesis
  proof (cases "\<lfloor>x\<rfloor> < \<lfloor>y\<rfloor>")
    case True
    then show ?thesis using rne_range[of x] rne_range[of y] by linarith
  next
    case False
    then have eq: "\<lfloor>y\<rfloor> = \<lfloor>x\<rfloor>" using fg by simp
    have "x - of_int \<lfloor>x\<rfloor> \<le> y - of_int \<lfloor>x\<rfloor>" using assms by simp
    then show ?thesis unfolding rne_def Let_def eq by (simp split: if_splits) 
  qed
qed

lemma rne_minus: "rne (- x) = - rne x"
proof (cases "x = of_int \<lfloor>x\<rfloor>")
  case True
  then obtain k where "x = of_int k" by blast
  then show ?thesis by (simp add: rne_of_int flip: of_int_minus)
next
  case False
  then have lt: "of_int \<lfloor>x\<rfloor> < x" using of_int_floor_le[of x] by linarith
  have up: "x < of_int \<lfloor>x\<rfloor> + 1" by linarith
  have c: "of_int (- \<lfloor>x\<rfloor> - 1) = - of_int \<lfloor>x\<rfloor> - (1::real)" by simp
  have a: "of_int (- \<lfloor>x\<rfloor> - 1) \<le> - x" unfolding c using up by linarith
  have b: "- x < of_int (- \<lfloor>x\<rfloor> - 1) + 1" unfolding c using lt by linarith
  have "\<lfloor>- x\<rfloor> = - \<lfloor>x\<rfloor> - 1"
    using a b by (rule floor_unique)
  then show ?thesis
    unfolding rne_def Let_def using lt up by (simp split: if_splits) 
qed

lemma p2_pos: "0 < p2 k"
  by (simp add: p2_def)

lemma p2_add: "p2 (a + b) = p2 a * p2 b"
  by (simp add: p2_def powr_add)

lemma p2_mono: "a \<le> b \<Longrightarrow> p2 a \<le> p2 b"
  by (simp add: p2_def)

lemma p2_nat: "0 \<le> k \<Longrightarrow> p2 k = 2 ^ nat k"
proof -
  assume "0 \<le> k"
  then have "real_of_int k = real (nat k)" by simp
  then show ?thesis unfolding p2_def by (simp only: powr_realpow zero_less_numeral)
qed

lemma p2_0: "p2 0 = 1"
  by (simp add: p2_def)

lemma p2_floor_log:
  assumes "0 < x"
  shows "p2 \<lfloor>log 2 x\<rfloor> \<le> x" and "x < p2 (\<lfloor>log 2 x\<rfloor> + 1)"
  using floor_log_eq_powr_iff[of x 2 "\<lfloor>log 2 x\<rfloor>"] assms by (simp_all add: p2_def)

lemma round_double_alt:
  "x \<noteq> 0 \<Longrightarrow> round_double x = of_int (rne (x / p2 (dexp x - 52))) * p2 (dexp x - 52)"
  by (simp add: round_double_def Let_def p2_def dexp_def)

lemma round_double_0: "round_double 0 = 0"
  by (simp add: round_double_def)

lemma round_double_minus: "round_double (- x) = - round_double x"
proof (cases "x = 0")
  case True
  then show ?thesis by (simp add: round_double_0)
next
  case False
  have d: "dexp (- x) = dexp x" by (simp add: dexp_def)
  show ?thesis using False by (simp add: round_double_alt d rne_minus)
qed

lemma mantissa_less:
  assumes "0 < x"
  shows "x / p2 (dexp x - 52) < 2 ^ 53"
proof -
  have "x < p2 (\<lfloor>log 2 x\<rfloor> + 1)" by (rule p2_floor_log[OF assms])
  also have "\<dots> \<le> p2 (dexp x + 1)" using assms by (intro p2_mono) (simp add: dexp_def)
  also have "p2 (dexp x + 1) = p2 53 * p2 (dexp x - 52)"
    using p2_add[of 53 "dexp x - 52"] by (simp add: algebra_simps)
  finally have "x / p2 (dexp x - 52) < p2 53" using p2_pos[of "dexp x - 52"]
    by (simp add: pos_divide_less_eq)
  then show ?thesis by (simp add: p2_nat)
qed

lemma mantissa_ge:
  assumes "0 < x" "- 1022 \<le> \<lfloor>log 2 x\<rfloor>"
  shows "2 ^ 52 \<le> x / p2 (dexp x - 52)"
proof -
  have d: "dexp x = \<lfloor>log 2 x\<rfloor>" using assms by (simp add: dexp_def)
  have "p2 52 * p2 (dexp x - 52) = p2 (dexp x)"
    using p2_add[of 52 "dexp x - 52"] by (simp add: algebra_simps)
  also have "\<dots> \<le> x" unfolding d by (rule p2_floor_log[OF assms(1)])
  finally have "p2 52 \<le> x / p2 (dexp x - 52)" using p2_pos[of "dexp x - 52"]
    by (simp add: pos_le_divide_eq)
  then show ?thesis by (simp add: p2_nat)
qed

lemma round_double_nonneg:
  assumes "0 < x"
  shows "0 \<le> round_double x"
proof -
  have "0 \<le> x / p2 (dexp x - 52)" using assms p2_pos[of "dexp x - 52"] by simp
  then have "0 \<le> rne (x / p2 (dexp x - 52))" using rne_lower[of 0] by simp
  then show ?thesis using assms p2_pos[of "dexp x - 52"] by (simp add: round_double_alt)
qed

lemma round_double_upper:
  assumes "0 < x"
  shows "round_double x \<le> p2 (dexp x + 1)"
proof -
  have "x / p2 (dexp x - 52) \<le> of_int (2 ^ 53)" using mantissa_less[OF assms] by simp
  then have "rne (x / p2 (dexp x - 52)) \<le> 2 ^ 53" by (rule rne_upper)
  then have "real_of_int (rne (x / p2 (dexp x - 52))) \<le> p2 53"
    by (simp add: p2_nat)
  then have "round_double x \<le> p2 53 * p2 (dexp x - 52)"
    using assms p2_pos[of "dexp x - 52"] by (simp add: round_double_alt)
  then show ?thesis using p2_add[of 53 "dexp x - 52"] by (simp add: algebra_simps)
qed

lemma round_double_lower:
  assumes "0 < x" "- 1022 \<le> \<lfloor>log 2 x\<rfloor>"
  shows "p2 (dexp x) \<le> round_double x"
proof -
  have "of_int (2 ^ 52) \<le> x / p2 (dexp x - 52)" using mantissa_ge[OF assms] by simp
  then have "2 ^ 52 \<le> rne (x / p2 (dexp x - 52))" by (rule rne_lower)
  then have "p2 52 \<le> real_of_int (rne (x / p2 (dexp x - 52)))"
    by (simp add: p2_nat)
  then have "p2 52 * p2 (dexp x - 52) \<le> round_double x"
    using assms p2_pos[of "dexp x - 52"] by (simp add: round_double_alt)
  then show ?thesis using p2_add[of 52 "dexp x - 52"] by (simp add: algebra_simps)
qed

lemma dexp_mono: "0 < x \<Longrightarrow> x \<le> y \<Longrightarrow> dexp x \<le> dexp y"
proof -
  assume a: "0 < x" "x \<le> y"
  then have "log 2 x \<le> log 2 y" by simp
  then have "\<lfloor>log 2 x\<rfloor> \<le> \<lfloor>log 2 y\<rfloor>" by (rule floor_mono)
  then show ?thesis using a by (simp add: dexp_def)
qed

lemma round_double_mono_pos:
  assumes "0 < x" "x \<le> y"
  shows "round_double x \<le> round_double y"
proof -
  have y: "0 < y" using assms by simp
  have le: "dexp x \<le> dexp y" by (rule dexp_mono[OF assms])
  show ?thesis
  proof (cases "dexp x = dexp y")
    case True
    have "x / p2 (dexp y - 52) \<le> y / p2 (dexp y - 52)"
      using assms(2) p2_pos[of "dexp y - 52"] by (simp add: divide_right_mono)
    then have "rne (x / p2 (dexp y - 52)) \<le> rne (y / p2 (dexp y - 52))" by (rule rne_mono)
    then show ?thesis
      using assms(1) y p2_pos[of "dexp y - 52"] by (simp add: round_double_alt True)
  next
    case False
    then have lt: "dexp x + 1 \<le> dexp y" using le by simp
    then have "- 1022 < dexp y" by (simp add: dexp_def)
    moreover have "dexp y = max \<lfloor>log 2 y\<rfloor> (- 1022)" using y by (simp add: dexp_def)
    ultimately have n: "- 1022 \<le> \<lfloor>log 2 y\<rfloor>" by linarith
    have "round_double x \<le> p2 (dexp x + 1)" by (rule round_double_upper[OF assms(1)])
    also have "\<dots> \<le> p2 (dexp y)" using lt by (rule p2_mono)
    also have "\<dots> \<le> round_double y" by (rule round_double_lower[OF y n])
    finally show ?thesis .
  qed
qed

lemma round_double_mono:
  assumes "x \<le> y"
  shows "round_double x \<le> round_double y"
proof -
  have nn: "0 \<le> round_double z" if "0 \<le> z" for z
    using that round_double_nonneg[of z] by (cases "z = 0") (simp_all add: round_double_0)
  have np: "round_double z \<le> 0" if "z \<le> 0" for z
    using nn[of "- z"] that by (simp add: round_double_minus)
  consider "0 < x" | "x \<le> 0" "0 \<le> y" | "y < 0" by linarith
  then show ?thesis
  proof cases
    case 1
    then show ?thesis using assms by (rule round_double_mono_pos)
  next
    case 2
    then show ?thesis using nn[of y] np[of x] by linarith
  next
    case 3
    then have "0 < - y" "- y \<le> - x" using assms by simp_all
    then have "round_double (- y) \<le> round_double (- x)" by (rule round_double_mono_pos)
    then show ?thesis by (simp add: round_double_minus)
  qed
qed

lemma p2_less_cancel: "p2 a < p2 b \<Longrightarrow> a < b"
  by (simp add: p2_def)

lemma p2_inverse: "1 / p2 a = p2 (- a)"
  by (simp add: p2_def powr_minus_divide)

lemma round_double_exact_pos:
  assumes "0 < n" "n < 2 ^ 53" "j \<le> 1000"
  shows "round_double (of_int n / 2 ^ j) = of_int n / 2 ^ j"
proof -
  define x :: real where "x = of_int n / 2 ^ j"
  have x0: "0 < x" using assms(1) by (simp add: x_def)
  define L where "L = \<lfloor>log 2 x\<rfloor>"
  have xn: "x = of_int n * p2 (- int j)"
    unfolding x_def by (simp add: p2_inverse[symmetric] p2_nat)
  have b: "p2 L \<le> x" "x < p2 (L + 1)" unfolding L_def by (rule p2_floor_log[OF x0])+
  have "1 * p2 (- int j) \<le> x"
    unfolding xn using assms(1) p2_pos[of "- int j"] by (intro mult_right_mono) simp_all
  then have "p2 (- int j) < p2 (L + 1)" using b(2) by simp
  then have lo: "- int j < L + 1" by (rule p2_less_cancel)
  have "real_of_int n < 2 ^ 53" using assms(2) by (metis of_int_less_iff of_int_numeral of_int_power)
  then have "x < 2 ^ 53 * p2 (- int j)"
    unfolding xn using p2_pos[of "- int j"] by (intro mult_strict_right_mono) simp_all
  also have "\<dots> = p2 (53 - int j)" using p2_add[of 53 "- int j"] by (simp add: p2_nat)
  finally have "p2 L < p2 (53 - int j)" using b(1) by simp
  then have hi: "L < 53 - int j" by (rule p2_less_cancel)
  have d: "dexp x = L" using x0 lo assms(3) by (simp add: dexp_def L_def)
  define k where "k = 52 - L - int j"
  have k0: "0 \<le> k" using hi by (simp add: k_def)
  have "x / p2 (L - 52) = x * (1 / p2 (L - 52))" by simp
  also have "\<dots> = x * p2 (52 - L)" unfolding p2_inverse by simp
  also have "\<dots> = of_int n * (p2 (- int j) * p2 (52 - L))" by (simp add: xn)
  also have "p2 (- int j) * p2 (52 - L) = p2 k"
    using p2_add[of "- int j" "52 - L"] by (simp add: k_def algebra_simps)
  also have "p2 k = of_int (2 ^ nat k)" using k0 by (simp add: p2_nat)
  finally have m: "x / p2 (L - 52) = of_int (n * 2 ^ nat k)" by simp
  have "round_double x = of_int (rne (x / p2 (L - 52))) * p2 (L - 52)"
    using x0 by (simp add: round_double_alt d)
  also have "\<dots> = (x / p2 (L - 52)) * p2 (L - 52)" unfolding m rne_of_int ..
  also have "\<dots> = x" using p2_pos[of "L - 52"] by simp
  finally show ?thesis by (simp add: x_def)
qed

lemma round_double_exact:
  assumes "\<bar>n\<bar> < 2 ^ 53" "j \<le> 1000"
  shows "round_double (of_int n / 2 ^ j) = of_int n / 2 ^ j"
proof -
  consider "n = 0" | "0 < n" | "n < 0" by linarith
  then show ?thesis
  proof cases
    case 1
    then show ?thesis by (simp add: round_double_0)
  next
    case 2
    then show ?thesis using assms by (intro round_double_exact_pos) simp_all
  next
    case 3
    then have "round_double (of_int (- n) / 2 ^ j) = of_int (- n) / 2 ^ j"
      using assms by (intro round_double_exact_pos) simp_all
    then show ?thesis using round_double_minus[of "of_int n / 2 ^ j"] by simp
  qed
qed


section \<open>Properties of the time manager\<close>

subsection \<open>Bounds and monotonicity of \<open>remaining\<close>\<close>

lemma remaining_unfold:
  assumes "rd fp (of_int myTime * sd_of fp movesToGo ply) \<noteq> 0"
  shows "remaining fp T myTime myInc moveOverhead movesToGo ply =
     int_of_double (rd fp (of_int (max 0 (int32_of_int64 (myTime - moveOverhead))) *
       min 1 (rd fp (TRatio_of fp T movesToGo ply * factor_of fp myTime myInc movesToGo ply))))"
proof (cases "movesToGo = 0")
  case True
  then show ?thesis using assms
    by (simp add: remaining_def Let_def TRatio_of_def sd_of_def factor_of_def mn_of_def)
next
  case False
  then show ?thesis using assms
    by (simp add: remaining_def Let_def TRatio_of_def sd_of_def factor_of_def mn_of_def)
qed

lemma fp_ok_ieee: "fp_ok ieee"
proof -
  have "0 \<le> round_double (exp x)" for x
    using round_double_nonneg[of "exp x"] by simp
  then show ?thesis
    by (simp add: fp_ok_def ieee_def round_double_mono round_double_exact)
qed

lemma rd_mono: "fp_ok fp \<Longrightarrow> x \<le> y \<Longrightarrow> rd fp x \<le> rd fp y"
  by (simp add: fp_ok_def)

lemma rd_int:
  assumes "fp_ok fp" "\<bar>n\<bar> < 2 ^ 53"
  shows "rd fp (of_int n) = of_int n"
proof -
  have "rd fp (of_int n / 2 ^ 0) = of_int n / 2 ^ 0"
    using assms unfolding fp_ok_def by blast
  then show ?thesis by simp
qed

lemma rd_0: "fp_ok fp \<Longrightarrow> rd fp 0 = 0"
  using rd_int[of fp 0] by simp

lemma rd_1: "fp_ok fp \<Longrightarrow> rd fp 1 = 1"
  using rd_int[of fp 1] by simp

lemma rd_nonneg: "fp_ok fp \<Longrightarrow> 0 \<le> x \<Longrightarrow> 0 \<le> rd fp x"
  using rd_mono[of fp 0 x] rd_0[of fp] by simp

lemma rd_ge1: "fp_ok fp \<Longrightarrow> 1 \<le> x \<Longrightarrow> 1 \<le> rd fp x"
  using rd_mono[of fp 1 x] rd_1[of fp] by simp

lemma rd_le1: "fp_ok fp \<Longrightarrow> x \<le> 1 \<Longrightarrow> rd fp x \<le> 1"
  using rd_mono[of fp x 1] rd_1[of fp] by simp

lemma gauss_nonneg: "fp_ok fp \<Longrightarrow> 0 \<le> gauss fp x a b"
  by (simp add: gauss_def Let_def fp_ok_def)

lemma int32_of_int64_id: "- (2 ^ 31) \<le> x \<Longrightarrow> x < 2 ^ 31 \<Longrightarrow> int32_of_int64 x = x"
  by (simp add: int32_of_int64_def)

lemma int32_of_int64_range: "- (2 ^ 31) \<le> int32_of_int64 x \<and> int32_of_int64 x < 2 ^ 31"
proof -
  have "(x + 2147483648) mod 4294967296 < (4294967296 :: int)" by (rule pos_mod_bound) simp
  moreover have "0 \<le> (x + 2147483648) mod (4294967296 :: int)" by (rule pos_mod_sign) simp
  ultimately show ?thesis unfolding int32_of_int64_def by simp
qed

lemma tdiv_nonneg: "0 \<le> a \<Longrightarrow> 0 < b \<Longrightarrow> tdiv a b = a div b"
  by (cases "a = 0") (simp_all add: tdiv_def)

lemma mn_of_nonneg:
  assumes "0 \<le> ply" "ply < 2 ^ 31 - 1"
  shows "mn_of ply = (ply + 1) div 2" and "0 \<le> mn_of ply"
proof -
  have "int32_of_int64 (ply + 1) = ply + 1" using assms by (intro int32_of_int64_id) simp_all
  then show "mn_of ply = (ply + 1) div 2" using assms by (simp add: mn_of_def tdiv_nonneg)
  then show "0 \<le> mn_of ply" using assms by simp
qed

lemma sd_of_ge1:
  assumes "fp_ok fp" "0 \<le> ply" "ply < 2 ^ 31 - 1"
  shows "1 \<le> sd_of fp movesToGo ply"
proof (cases "movesToGo = 0")
  case False
  have "1 \<le> rd fp 8.5" using assms(1) by (intro rd_ge1) simp_all
  then show ?thesis using False by (simp add: sd_of_def)
next
  case True
  define mn where "mn = mn_of ply"
  have mn0: "0 \<le> mn" unfolding mn_def by (rule mn_of_nonneg[OF assms(2,3)])
  have a: "0 \<le> rd fp (13.5 * of_int mn)" using assms(1) mn0 by (intro rd_nonneg) simp_all
  have b: "0 \<le> rd fp (500.0 + of_int mn)" using assms(1) mn0 by (intro rd_nonneg) simp_all
  have "0 \<le> rd fp (rd fp (13.5 * of_int mn) / rd fp (500.0 + of_int mn))"
    by (intro rd_nonneg[OF assms(1)]) (intro divide_nonneg_nonneg a b)
  then have "1 \<le> rd fp (1.0 + rd fp (rd fp (13.5 * of_int mn) / rd fp (500.0 + of_int mn)))"
    using assms(1) by (intro rd_ge1) simp_all
  then show ?thesis using True by (simp add: sd_of_def mn_def)
qed

lemma den_ge1:
  assumes "fp_ok fp" "0 \<le> ply" "ply < 2 ^ 31 - 1" "0 < myTime"
  shows "1 \<le> rd fp (of_int myTime * sd_of fp movesToGo ply)"
proof -
  have "1 \<le> real_of_int myTime" using assms(4) by simp
  then have "1 * 1 \<le> real_of_int myTime * sd_of fp movesToGo ply"
    using sd_of_ge1[OF assms(1,2,3), of movesToGo] by (intro mult_mono) simp_all
  then show ?thesis using assms(1) by (intro rd_ge1) simp_all
qed

lemma factor_of_nonneg:
  assumes "fp_ok fp" "0 \<le> ply" "ply < 2 ^ 31 - 1" "0 < myTime" "0 \<le> myInc"
  shows "0 \<le> factor_of fp myTime myInc movesToGo ply"
proof -
  define iu where "iu = rd fp (49.0 + rd fp (28.5 * gauss fp (mn_of ply) 20.0 465.0))"
  have "0 \<le> rd fp (28.5 * gauss fp (mn_of ply) 20.0 465.0)"
    using assms(1) gauss_nonneg[OF assms(1)] by (intro rd_nonneg) simp_all
  then have iu0: "0 \<le> iu" unfolding iu_def using assms(1) by (intro rd_nonneg) simp_all
  have n0: "0 \<le> rd fp (iu * of_int myInc)" using assms(1,5) iu0 by (intro rd_nonneg) simp_all
  have d0: "0 \<le> rd fp (of_int myTime * sd_of fp movesToGo ply)"
    using den_ge1[OF assms(1,2,3,4), of movesToGo] by simp
  have "0 \<le> rd fp (rd fp (iu * of_int myInc) / rd fp (of_int myTime * sd_of fp movesToGo ply))"
    by (intro rd_nonneg[OF assms(1)]) (intro divide_nonneg_nonneg n0 d0)
  then have "0 \<le> rd fp (1.0 + rd fp (rd fp (iu * of_int myInc) / rd fp (of_int myTime * sd_of fp movesToGo ply)))"
    using assms(1) by (intro rd_nonneg) simp_all
  then show ?thesis by (simp add: factor_of_def iu_def)
qed

lemma TRatio_of_bounds:
  assumes "fp_ok fp" "0 \<le> ply" "ply < 2 ^ 31 - 1" "0 \<le> movesToGo"
  shows "0 \<le> TRatio_of fp OptimumTime movesToGo ply"
    and "TRatio_of fp OptimumTime movesToGo ply \<le> TRatio_of fp MaxTime movesToGo ply"
proof -
  note rm = rd_mono[OF assms(1)] and rn = rd_nonneg[OF assms(1)]
  show "0 \<le> TRatio_of fp OptimumTime movesToGo ply"
  proof (cases "movesToGo = 0")
    case True
    have "0 \<le> rd fp 0.018" by (rule rn) simp
    moreover have "0 \<le> sd_of fp 0 ply" using sd_of_ge1[OF assms(1,2,3), of 0] by simp
    ultimately have "0 \<le> rd fp (rd fp 0.018 * sd_of fp 0 ply)"
      by (intro rn) (rule mult_nonneg_nonneg)
    then show ?thesis using True by (simp add: TRatio_of_def)
  next
    case False
    then have m: "0 < real_of_int movesToGo" using assms(4) by simp
    have "0 \<le> rd fp 0.9" by (rule rn) simp
    then have q: "0 \<le> rd fp (rd fp 0.9 / of_int movesToGo)"
      using m by (intro rn) (rule divide_nonneg_nonneg, simp_all)
    have g: "0 \<le> gauss fp movesToGo 19.0 1600.0" by (rule gauss_nonneg[OF assms(1)])
    have c: "0 \<le> rd fp 1.3" by (rule rn) simp
    have "0 \<le> rd fp (rd fp (rd fp 0.9 / of_int movesToGo) * gauss fp movesToGo 19.0 1600.0)"
      by (intro rn) (intro mult_nonneg_nonneg q g)
    moreover have "0 \<le> rd fp (rd fp (rd fp 0.9 / of_int movesToGo) * rd fp 1.3)"
      by (intro rn) (intro mult_nonneg_nonneg q c)
    ultimately show ?thesis using False by (simp add: TRatio_of_def)
  qed
  show "TRatio_of fp OptimumTime movesToGo ply \<le> TRatio_of fp MaxTime movesToGo ply"
  proof (cases "movesToGo = 0")
    case True
    have "rd fp 0.018 \<le> rd fp 0.074" by (rule rm) simp
    moreover have "0 \<le> sd_of fp 0 ply" using sd_of_ge1[OF assms(1,2,3), of 0] by simp
    ultimately have "rd fp (rd fp 0.018 * sd_of fp 0 ply) \<le> rd fp (rd fp 0.074 * sd_of fp 0 ply)"
      by (intro rm) (rule mult_right_mono)
    then show ?thesis using True by (simp add: TRatio_of_def)
  next
    case False
    then have m: "0 < real_of_int movesToGo" using assms(4) by simp
    have "rd fp 0.9 \<le> rd fp 5.6" by (rule rm) simp
    then have q: "rd fp (rd fp 0.9 / of_int movesToGo) \<le> rd fp (rd fp 5.6 / of_int movesToGo)"
      using m by (intro rm) (rule divide_right_mono, simp_all)
    have g: "0 \<le> gauss fp movesToGo 19.0 1600.0" by (rule gauss_nonneg[OF assms(1)])
    have c: "0 \<le> rd fp 1.3" by (rule rn) simp
    have "rd fp (rd fp (rd fp 0.9 / of_int movesToGo) * gauss fp movesToGo 19.0 1600.0)
          \<le> rd fp (rd fp (rd fp 5.6 / of_int movesToGo) * gauss fp movesToGo 19.0 1600.0)"
      by (intro rm) (intro mult_right_mono q g)
    moreover have "rd fp (rd fp (rd fp 0.9 / of_int movesToGo) * rd fp 1.3)
          \<le> rd fp (rd fp (rd fp 5.6 / of_int movesToGo) * rd fp 1.3)"
      by (intro rm) (intro mult_right_mono q c)
    ultimately show ?thesis using False by (simp add: TRatio_of_def)
  qed
qed

lemma int_of_double_of_int:
  "- (2 ^ 31) \<le> k \<Longrightarrow> k < 2 ^ 31 \<Longrightarrow> int_of_double (of_int k) = k"
  by (simp add: int_of_double_def Let_def)

lemma int_of_double_floor:
  assumes "0 \<le> x" "x < 2 ^ 31"
  shows "int_of_double x = \<lfloor>x\<rfloor>"
proof -
  have "0 \<le> \<lfloor>x\<rfloor>" using assms(1) by simp
  moreover have "\<lfloor>x\<rfloor> < 2 ^ 31" using assms(2) by (simp add: floor_less_iff)
  ultimately show ?thesis using assms(1) by (simp add: int_of_double_def Let_def)
qed

lemma int_of_double_mono:
  assumes "0 \<le> x" "x \<le> y" "y < 2 ^ 31"
  shows "int_of_double x \<le> int_of_double y"
proof -
  have "int_of_double x = \<lfloor>x\<rfloor>" using assms by (intro int_of_double_floor) simp_all
  moreover have "int_of_double y = \<lfloor>y\<rfloor>" using assms by (intro int_of_double_floor) simp_all
  ultimately show ?thesis using assms(2) by (simp add: floor_mono)
qed

lemma hyp_of_range: "0 \<le> hyp_of myTime moveOverhead" "hyp_of myTime moveOverhead < 2 ^ 31"
  using int32_of_int64_range[of "myTime - moveOverhead"] by (simp_all add: hyp_of_def)

lemma remaining_value:
  assumes "fp_ok fp" "0 \<le> ply" "ply < 2 ^ 31 - 1" "0 < myTime"
  shows "remaining fp T myTime myInc moveOverhead movesToGo ply
           = int_of_double (value_of fp T myTime myInc moveOverhead movesToGo ply)"
proof -
  have "rd fp (of_int myTime * sd_of fp movesToGo ply) \<noteq> 0"
    using den_ge1[OF assms, of movesToGo] by simp
  then show ?thesis by (simp add: remaining_unfold value_of_def hyp_of_def)
qed

lemma rd_hyp:
  assumes "fp_ok fp"
  shows "rd fp (of_int (hyp_of myTime moveOverhead)) = of_int (hyp_of myTime moveOverhead)"
proof -
  have "\<bar>hyp_of myTime moveOverhead\<bar> < 2 ^ 31" using hyp_of_range[of myTime moveOverhead] by simp
  then have "\<bar>hyp_of myTime moveOverhead\<bar> < 2 ^ 53" by simp
  then show ?thesis by (rule rd_int[OF assms])
qed

lemma value_of_bounds:
  assumes "fp_ok fp" "0 \<le> ply" "ply < 2 ^ 31 - 1" "0 < myTime" "0 \<le> myInc" "0 \<le> movesToGo"
  shows "0 \<le> value_of fp OptimumTime myTime myInc moveOverhead movesToGo ply"
    and "value_of fp OptimumTime myTime myInc moveOverhead movesToGo ply
           \<le> value_of fp MaxTime myTime myInc moveOverhead movesToGo ply"
    and "value_of fp MaxTime myTime myInc moveOverhead movesToGo ply
           \<le> of_int (hyp_of myTime moveOverhead)"
proof -
  define F where "F = factor_of fp myTime myInc movesToGo ply"
  define h where "h = real_of_int (hyp_of myTime moveOverhead)"
  define to where "to = TRatio_of fp OptimumTime movesToGo ply"
  define tm where "tm = TRatio_of fp MaxTime movesToGo ply"
  have F0: "0 \<le> F" unfolding F_def by (rule factor_of_nonneg[OF assms(1,2,3,4,5)])
  have h0: "0 \<le> h" unfolding h_def using hyp_of_range(1)[of myTime moveOverhead] by simp
  have t: "0 \<le> to" "to \<le> tm" unfolding to_def tm_def by (rule TRatio_of_bounds[OF assms(1,2,3,6)])+
  have xo: "0 \<le> rd fp (to * F)" by (intro rd_nonneg[OF assms(1)] mult_nonneg_nonneg t F0)
  have xm: "rd fp (to * F) \<le> rd fp (tm * F)" by (intro rd_mono[OF assms(1)] mult_right_mono t F0)
  have "0 \<le> h * min 1 (rd fp (to * F))" using h0 xo by (intro mult_nonneg_nonneg) simp_all
  then show "0 \<le> value_of fp OptimumTime myTime myInc moveOverhead movesToGo ply"
    unfolding value_of_def h_def[symmetric] F_def[symmetric] to_def[symmetric]
    by (rule rd_nonneg[OF assms(1)])
  have "min 1 (rd fp (to * F)) \<le> min 1 (rd fp (tm * F))" using xm by (intro min.mono) simp_all
  then have "h * min 1 (rd fp (to * F)) \<le> h * min 1 (rd fp (tm * F))" using h0 by (rule mult_left_mono)
  then show "value_of fp OptimumTime myTime myInc moveOverhead movesToGo ply
           \<le> value_of fp MaxTime myTime myInc moveOverhead movesToGo ply"
    unfolding value_of_def h_def[symmetric] F_def[symmetric] to_def[symmetric] tm_def[symmetric]
    by (rule rd_mono[OF assms(1)])
  have "h * min 1 (rd fp (tm * F)) \<le> h * 1" using h0 by (intro mult_left_mono) simp_all
  then have "rd fp (h * min 1 (rd fp (tm * F))) \<le> rd fp h" using rd_mono[OF assms(1)] by simp
  then show "value_of fp MaxTime myTime myInc moveOverhead movesToGo ply
           \<le> of_int (hyp_of myTime moveOverhead)"
    unfolding value_of_def h_def[symmetric] F_def[symmetric] tm_def[symmetric]
    using rd_hyp[OF assms(1), of myTime moveOverhead] by (simp add: h_def)
qed

lemma remaining_bounds:
  assumes "fp_ok fp" "0 \<le> ply" "ply < 2 ^ 31 - 1" "0 < myTime" "0 \<le> myInc" "0 \<le> movesToGo"
  shows "0 \<le> remaining fp OptimumTime myTime myInc moveOverhead movesToGo ply"
    and "remaining fp OptimumTime myTime myInc moveOverhead movesToGo ply
           \<le> remaining fp MaxTime myTime myInc moveOverhead movesToGo ply"
    and "remaining fp MaxTime myTime myInc moveOverhead movesToGo ply \<le> hyp_of myTime moveOverhead"
proof -
  note v = value_of_bounds[OF assms, of moveOverhead]
  note r = remaining_value[OF assms(1,2,3,4), of _ myInc moveOverhead movesToGo]
  have hr: "real_of_int (hyp_of myTime moveOverhead) < 2 ^ 31"
    using hyp_of_range(2)[of myTime moveOverhead] by (metis of_int_less_iff of_int_numeral of_int_power)
  have hi: "int_of_double (of_int (hyp_of myTime moveOverhead)) = hyp_of myTime moveOverhead"
    using hyp_of_range[of myTime moveOverhead] by (intro int_of_double_of_int) simp_all
  have "int_of_double 0 \<le> int_of_double (value_of fp OptimumTime myTime myInc moveOverhead movesToGo ply)"
    using v hr by (intro int_of_double_mono) simp_all
  then show "0 \<le> remaining fp OptimumTime myTime myInc moveOverhead movesToGo ply"
    unfolding r using int_of_double_of_int[of 0] by simp
  show "remaining fp OptimumTime myTime myInc moveOverhead movesToGo ply
           \<le> remaining fp MaxTime myTime myInc moveOverhead movesToGo ply"
    unfolding r using v hr by (intro int_of_double_mono) simp_all
  have "int_of_double (value_of fp MaxTime myTime myInc moveOverhead movesToGo ply)
          \<le> int_of_double (of_int (hyp_of myTime moveOverhead))"
    using v hr by (intro int_of_double_mono) simp_all
  then show "remaining fp MaxTime myTime myInc moveOverhead movesToGo ply \<le> hyp_of myTime moveOverhead"
    unfolding r hi .
qed

lemma rd_dyadic:
  "fp_ok fp \<Longrightarrow> \<bar>n\<bar> < 2 ^ 53 \<Longrightarrow> j \<le> 1000 \<Longrightarrow> rd fp (of_int n / 2 ^ j) = of_int n / 2 ^ j"
  by (simp add: fp_ok_def)

lemma rd_sixtyfourth: "fp_ok fp \<Longrightarrow> rd fp (1 / 64) = 1 / 64"
  using rd_dyadic[of fp 1 6] by simp

lemma rd_numeral_int:
  assumes "fp_ok fp" "\<bar>n\<bar> < 2 ^ 53"
  shows "rd fp (real_of_int n) = real_of_int n"
  using assms by (rule rd_int)

lemma remaining_saturated:
  assumes "fp_ok fp" "0 \<le> ply" "ply \<le> 79" "0 < myTime" "myTime < 2 ^ 31"
    and "0 \<le> myInc" "myInc < 2 ^ 31" "126 * myTime \<le> 49 * myInc"
  shows "remaining fp T myTime myInc moveOverhead 0 ply = hyp_of myTime moveOverhead"
proof -
  note rm = rd_mono[OF assms(1)] and rn = rd_nonneg[OF assms(1)]
  have p31: "ply < 2 ^ 31 - 1" using assms(3) by simp
  define mn where "mn = mn_of ply"
  have mn: "0 \<le> mn" "mn \<le> 40"
    using mn_of_nonneg[OF assms(2) p31] assms(3) by (simp_all add: mn_def)
  define A where "A = rd fp (13.5 * of_int mn)"
  define B where "B = rd fp (500.0 + of_int mn)"
  have A0: "0 \<le> A" unfolding A_def using mn(1) by (intro rn) simp
  have "13.5 * real_of_int mn \<le> 500.0 + real_of_int mn" using mn(2) by simp
  then have AB: "A \<le> B" unfolding A_def B_def by (rule rm)
  have B1: "1 \<le> B" unfolding B_def using mn(1) by (intro rd_ge1[OF assms(1)]) simp
  have "A / B \<le> 1" using AB B1 by (simp add: divide_le_eq_1)
  then have Q1: "rd fp (A / B) \<le> 1" by (rule rd_le1[OF assms(1)])
  have Q0: "0 \<le> rd fp (A / B)" using A0 B1 by (intro rn) simp
  define sd where "sd = rd fp (1.0 + rd fp (A / B))"
  have sd_eq: "sd_of fp 0 ply = sd" by (simp add: sd_of_def sd_def A_def B_def mn_def)
  have sd1: "1 \<le> sd" unfolding sd_def using Q0 by (intro rd_ge1[OF assms(1)]) simp
  have "rd fp (1.0 + rd fp (A / B)) \<le> rd fp (real_of_int 2)" using Q1 by (intro rm) simp
  then have sd2: "sd \<le> 2" unfolding sd_def using rd_int[OF assms(1), of 2] by simp
  define c where "c = rd fp (if T = OptimumTime then 0.018 else 0.074)"
  have "rd fp (1 / 64) \<le> c" unfolding c_def by (intro rm) simp
  then have c64: "1 / 64 \<le> c" using rd_sixtyfourth[OF assms(1)] by simp
  have "1 / 64 * 1 \<le> c * sd" using c64 sd1 by (intro mult_mono) simp_all
  then have "rd fp (1 / 64) \<le> rd fp (c * sd)" by (intro rm) simp
  then have TR: "1 / 64 \<le> rd fp (c * sd)" using rd_sixtyfourth[OF assms(1)] by simp
  have TR_eq: "TRatio_of fp T 0 ply = rd fp (c * sd)" by (simp add: TRatio_of_def c_def sd_eq)
  define iu where "iu = rd fp (49.0 + rd fp (28.5 * gauss fp mn 20.0 465.0))"
  have "0 \<le> rd fp (28.5 * gauss fp mn 20.0 465.0)"
    using gauss_nonneg[OF assms(1), of mn 20 465] by (intro rn) simp
  then have "rd fp (real_of_int 49) \<le> iu" unfolding iu_def by (intro rm) simp
  then have iu49: "49 \<le> iu" using rd_int[OF assms(1), of 49] by simp
  define num where "num = rd fp (iu * of_int myInc)"
  define den where "den = rd fp (of_int myTime * sd)"
  have "real_of_int (49 * myInc) \<le> iu * of_int myInc"
    using iu49 assms(6) by (simp add: mult_right_mono)
  then have n1: "rd fp (real_of_int (49 * myInc)) \<le> num" unfolding num_def by (rule rm)
  have b49: "\<bar>49 * myInc\<bar> < 2 ^ 53" using assms(6,7) by simp
  have num_lo: "real_of_int (49 * myInc) \<le> num"
    using n1 unfolding rd_int[OF assms(1) b49] .
  have "of_int myTime * sd \<le> real_of_int (2 * myTime)" using sd2 assms(4) by simp
  then have d1: "den \<le> rd fp (real_of_int (2 * myTime))" unfolding den_def by (rule rm)
  have b2: "\<bar>2 * myTime\<bar> < 2 ^ 53" using assms(4,5) by simp
  have den_hi: "den \<le> real_of_int (2 * myTime)"
    using d1 unfolding rd_int[OF assms(1) b2] .
  have den1: "1 \<le> den" unfolding den_def sd_eq[symmetric]
    by (rule den_ge1[OF assms(1,2) p31 assms(4)])
  have "real_of_int (126 * myTime) \<le> real_of_int (49 * myInc)"
    using assms(8) by (rule of_int_le_iff[THEN iffD2])
  then have "63 * real_of_int (2 * myTime) \<le> num" using num_lo by simp
  then have "63 * den \<le> num" using den_hi by linarith
  then have "63 \<le> num / den" using den1 by (simp add: pos_le_divide_eq)
  then have "rd fp (real_of_int 63) \<le> rd fp (num / den)" by (intro rm) simp
  then have q63: "63 \<le> rd fp (num / den)" using rd_int[OF assms(1), of 63] by simp
  then have "rd fp (real_of_int 64) \<le> rd fp (1.0 + rd fp (num / den))" by (intro rm) simp
  then have F64: "64 \<le> rd fp (1.0 + rd fp (num / den))" using rd_int[OF assms(1), of 64] by simp
  have F_eq: "factor_of fp myTime myInc 0 ply = rd fp (1.0 + rd fp (num / den))"
    by (simp add: factor_of_def num_def den_def iu_def sd_eq mn_def)
  have "1 / 64 * 64 \<le> rd fp (c * sd) * rd fp (1.0 + rd fp (num / den))"
    using TR F64 by (intro mult_mono) simp_all
  then have "1 \<le> rd fp (c * sd) * rd fp (1.0 + rd fp (num / den))" by simp
  then have "1 \<le> rd fp (rd fp (c * sd) * rd fp (1.0 + rd fp (num / den)))" by (rule rd_ge1[OF assms(1)])
  then have m: "min 1 (rd fp (TRatio_of fp T 0 ply * factor_of fp myTime myInc 0 ply)) = 1"
    unfolding TR_eq F_eq by simp
  have v: "value_of fp T myTime myInc moveOverhead 0 ply = of_int (hyp_of myTime moveOverhead)"
    unfolding value_of_def m using rd_hyp[OF assms(1), of myTime moveOverhead] by simp
  show ?thesis
    unfolding remaining_value[OF assms(1,2) p31 assms(4)] v
    using hyp_of_range[of myTime moveOverhead] by (intro int_of_double_of_int) simp_all
qed

lemma tdiv_4_cases: "tdiv a 4 = (if 0 \<le> a then a div 4 else - ((- a) div 4))"
  by (simp add: tdiv_def sgn_if)

lemma tdiv_4_mono:
  assumes "a \<le> b"
  shows "tdiv a 4 \<le> tdiv b 4"
proof (cases "0 \<le> a")
  case True
  then have "0 \<le> b" using assms by simp
  moreover have "a div 4 \<le> b div 4" using assms by (rule zdiv_mono1) simp
  ultimately show ?thesis using True by (simp add: tdiv_4_cases)
next
  case False
  have na: "0 \<le> (- a) div 4" using False by (simp add: pos_imp_zdiv_nonneg_iff)
  show ?thesis
  proof (cases "0 \<le> b")
    case True
    then have "0 \<le> b div 4" by (simp add: pos_imp_zdiv_nonneg_iff)
    then show ?thesis using False True na by (simp add: tdiv_4_cases)
  next
    case b: False
    have "(- b) div 4 \<le> (- a) div 4" using assms by (intro zdiv_mono1) simp_all
    then show ?thesis using False b by (simp add: tdiv_4_cases)
  qed
qed

lemma int32_of_int64_le:
  assumes "- (2 ^ 31) \<le> x"
  shows "int32_of_int64 x \<le> x"
proof -
  have "0 \<le> x + 2 ^ 31" using assms by simp
  then have "(x + 2 ^ 31) mod 2 ^ 32 \<le> x + 2 ^ 31" by (rule zmod_le_nonneg_dividend)
  then show ?thesis by (simp add: int32_of_int64_def)
qed

lemma hyp_of_le_time:
  assumes "0 < myTime" "myTime < 2 ^ 31" "0 \<le> moveOverhead" "moveOverhead < 2 ^ 31"
  shows "hyp_of myTime moveOverhead \<le> myTime"
proof -
  have "int32_of_int64 (myTime - moveOverhead) = myTime - moveOverhead"
    using assms by (intro int32_of_int64_id) simp_all
  then show ?thesis using assms by (simp add: hyp_of_def)
qed

lemma init_fields:
  "nodes_as_time opts limits tm = (l1, t1) \<Longrightarrow>
   maximumTime (snd (init fp opts limits ply tm))
     = remaining fp MaxTime (time l1) (inc l1) (Move_Overhead opts) (movestogo l1) ply \<and>
   optimumTime (snd (init fp opts limits ply tm))
     = (let ot = remaining fp OptimumTime (time l1) (inc l1) (Move_Overhead opts) (movestogo l1) ply
        in if Ponder opts then int32_of_int64 (ot + tdiv ot 4) else ot)"
  by (simp add: init_def Let_def)

lemma nodes_as_time_Ponder: "nodes_as_time (opts\<lparr>Ponder := b\<rparr>) limits tm = nodes_as_time opts limits tm"
  by (simp add: nodes_as_time_def)

subsection \<open>A clock on which the rounding shows\<close>

text \<open>
  With 6030 ms on the clock, no increment, 30 ms of overhead and sudden death at ply 0 the
  optimum is \<open>int(6000 * 0.018)\<close>. Over the reals the product is 108. The double nearest to
  0.018 is \<open>5188146770730811 / 2^58\<close>, a little below it, the rounded product is
  \<open>7599824371187711 / 2^46\<close>, a little below 108, and the conversion gives 107.
\<close>

lemma round_double_eval:
  assumes "p2 L \<le> x" "x < p2 (L + 1)" "- 1022 \<le> L"
  shows "round_double x = of_int (rne (x / p2 (L - 52))) * p2 (L - 52)"
proof -
  have x0: "0 < x" using assms(1) p2_pos[of L] by linarith
  have "\<lfloor>log 2 x\<rfloor> = L"
    using floor_log_eq_powr_iff[of x 2 L] x0 assms(1,2) by (simp add: p2_def)
  then have "dexp x = L" using x0 assms(3) by (simp add: dexp_def)
  then show ?thesis using x0 by (simp add: round_double_alt)
qed

lemma p2_neg_numeral: "p2 (- int n) = 1 / 2 ^ n"
  using p2_inverse[of "int n"] by (simp add: p2_nat)

lemma rd_0018: "round_double 0.018 = 5188146770730811 / 2 ^ 58"
proof -
  have a: "p2 (- 6) \<le> (0.018::real)" using p2_neg_numeral[of 6] by simp
  have b: "(0.018::real) < p2 (- 6 + 1)" using p2_neg_numeral[of 5] by simp
  have c: "p2 (- 6 - 52) = 1 / 2 ^ 58" using p2_neg_numeral[of 58] by simp
  have r: "rne (0.018 / (1 / 2 ^ 58)) = 5188146770730811"
    by (simp add: rne_def Let_def)
  have "round_double 0.018 = of_int (rne (0.018 / p2 (- 6 - 52))) * p2 (- 6 - 52)"
    by (rule round_double_eval[OF a b]) simp
  also have "\<dots> = of_int (rne (0.018 / (1 / 2 ^ 58))) * (1 / 2 ^ 58)"
    unfolding c ..
  also have "\<dots> = 5188146770730811 / 2 ^ 58"
    unfolding r by simp
  finally show ?thesis .
qed

lemma rd_ieee: "rd ieee = round_double"
  by (simp add: ieee_def)

lemma round_double_int:
  assumes "\<bar>n\<bar> < 2 ^ 53"
  shows "round_double (of_int n) = of_int n"
  using round_double_exact[of n 0] assms by simp

lemma sd_ieee_0: "sd_of ieee 0 0 = 1"
proof -
  have m: "mn_of 0 = 0" by (simp add: mn_of_def int32_of_int64_def tdiv_def)
  have a: "round_double 500 = 500" using round_double_int[of 500] by simp
  have b: "round_double 1 = 1" using round_double_int[of 1] by simp
  show ?thesis by (simp add: sd_of_def m rd_ieee round_double_0 a b)
qed

lemma TRatio_ieee_0: "TRatio_of ieee OptimumTime 0 0 = 5188146770730811 / 2 ^ 58"
proof -
  have "round_double (of_int 5188146770730811 / 2 ^ 58) = of_int 5188146770730811 / 2 ^ 58"
    by (rule round_double_exact) simp_all
  then have e: "round_double (5188146770730811 / 2 ^ 58) = 5188146770730811 / 2 ^ 58" by simp
  have "TRatio_of ieee OptimumTime 0 0 = round_double (round_double 0.018 * 1)"
    by (simp add: TRatio_of_def sd_ieee_0 rd_ieee)
  also have "\<dots> = round_double (5188146770730811 / 2 ^ 58)"
    unfolding rd_0018 by simp
  finally show ?thesis unfolding e .
qed

lemma factor_ieee_0: "factor_of ieee 6030 0 0 0 = 1"
proof -
  have a: "round_double 6030 = 6030" using round_double_int[of 6030] by simp
  have b: "round_double 1 = 1" using round_double_int[of 1] by simp
  show ?thesis by (simp add: factor_of_def sd_ieee_0 rd_ieee round_double_0 a b)
qed

lemma value_ieee_0: "value_of ieee OptimumTime 6030 0 30 0 0 = 7599824371187711 / 2 ^ 46"
proof -
  define c :: real where "c = 5188146770730811 / 2 ^ 58"
  have h: "hyp_of 6030 30 = 6000" by (simp add: hyp_of_def int32_of_int64_def)
  have t: "TRatio_of ieee OptimumTime 0 0 = c" unfolding c_def by (rule TRatio_ieee_0)
  have "round_double (of_int 5188146770730811 / 2 ^ 58) = of_int 5188146770730811 / 2 ^ 58"
    by (rule round_double_exact) simp_all
  then have e: "round_double c = c" by (simp add: c_def)
  have c1: "c \<le> 1" by (simp add: c_def)
  define v :: real where "v = 6000 * c"
  have a: "p2 6 \<le> v" using p2_nat[of 6] by (simp add: v_def c_def)
  have b: "v < p2 (6 + 1)" using p2_nat[of 7] by (simp add: v_def c_def)
  have k: "p2 (6 - 52) = 1 / 2 ^ 46" using p2_neg_numeral[of 46] by simp
  have r: "rne (v / (1 / 2 ^ 46)) = 7599824371187711"
    by (simp add: rne_def Let_def v_def c_def)
  have "round_double v = of_int (rne (v / p2 (6 - 52))) * p2 (6 - 52)"
    by (rule round_double_eval[OF a b]) simp
  also have "\<dots> = of_int (rne (v / (1 / 2 ^ 46))) * (1 / 2 ^ 46)"
    unfolding k ..
  also have "\<dots> = 7599824371187711 / 2 ^ 46"
    unfolding r by simp
  finally have rv: "round_double v = 7599824371187711 / 2 ^ 46" .
  have "value_of ieee OptimumTime 6030 0 30 0 0 = round_double v"
    unfolding value_of_def h t factor_ieee_0 using c1 by (simp add: rd_ieee e v_def)
  then show ?thesis unfolding rv .
qed

lemma remaining_ieee_rounds_down: "remaining ieee OptimumTime 6030 0 30 0 0 = 107"
proof -
  have a: "round_double 6030 = 6030" using round_double_int[of 6030] by simp
  have d: "rd ieee (of_int 6030 * sd_of ieee 0 0) \<noteq> 0"
    by (simp add: sd_ieee_0 rd_ieee a)
  have "remaining ieee OptimumTime 6030 0 30 0 0
        = int_of_double (value_of ieee OptimumTime 6030 0 30 0 0)"
    unfolding remaining_unfold[OF d] value_of_def hyp_of_def ..
  also have "\<dots> = 107"
    unfolding value_ieee_0 by (simp add: int_of_double_def Let_def)
  finally show ?thesis .
qed


subsection \<open>Claims about the time manager\<close>

text \<open>
  C1. For a valid clock (time left, no negative increment, moves-to-go or ply, taken after
  the conversion of the nodes-as-time mode), \<open>maximumTime\<close> is at least \<open>optimumTime\<close> when
  Ponder is off; when Ponder is on, \<open>optimumTime\<close> is at most \<open>maximumTime\<close> plus a quarter of
  it. This is the amended claim: the inflated optimum is not capped by the maximum. It
  holds for every rounding and every \<open>exp\<close> that satisfy \<open>fp_ok\<close>.
\<close>

theorem init_maximum_bounds_optimum:
  assumes "fp_ok fp" "valid_clock (fst (nodes_as_time opts limits tm)) ply"
  shows "(\<not> Ponder opts \<longrightarrow>
            optimumTime (snd (init fp opts limits ply tm)) \<le> maximumTime (snd (init fp opts limits ply tm)))
       \<and> (Ponder opts \<longrightarrow>
            optimumTime (snd (init fp opts limits ply tm))
              \<le> maximumTime (snd (init fp opts limits ply tm))
                + tdiv (maximumTime (snd (init fp opts limits ply tm))) 4)"
proof -
  obtain l1 t1 where n: "nodes_as_time opts limits tm = (l1, t1)"
    by (cases "nodes_as_time opts limits tm")
  have v: "0 \<le> ply" "ply < 2 ^ 31 - 1" "0 < time l1" "0 \<le> inc l1" "0 \<le> movestogo l1"
    using assms(2) by (simp_all add: n valid_clock_def)
  define ot where "ot = remaining fp OptimumTime (time l1) (inc l1) (Move_Overhead opts) (movestogo l1) ply"
  define mt where "mt = remaining fp MaxTime (time l1) (inc l1) (Move_Overhead opts) (movestogo l1) ply"
  note b = remaining_bounds[OF assms(1) v, of "Move_Overhead opts"]
  have lo: "0 \<le> ot" and om: "ot \<le> mt" unfolding ot_def mt_def by (rule b(1), rule b(2))
  have "tdiv ot 4 = ot div 4" using lo by (simp add: tdiv_4_cases)
  then have "- (2 ^ 31) \<le> ot + tdiv ot 4" using lo by simp
  then have "int32_of_int64 (ot + tdiv ot 4) \<le> ot + tdiv ot 4" by (rule int32_of_int64_le)
  also have "\<dots> \<le> mt + tdiv mt 4" using om tdiv_4_mono[OF om] by linarith
  finally have q: "int32_of_int64 (ot + tdiv ot 4) \<le> mt + tdiv mt 4" .
  show ?thesis
    using init_fields[OF n, of fp ply] om q by (simp add: Let_def ot_def mt_def)
qed

theorem init_maximum_bounds_optimum_witness:
  "fp_ok ieee \<and>
   valid_clock (fst (nodes_as_time \<lparr>Move_Overhead = 30, nodestime = 0, Ponder = False\<rparr>
       \<lparr>time = 60000, inc = 0, movestogo = 0, npmsec = 0\<rparr> tm0)) 1 \<and>
   optimumTime (snd (init ieee \<lparr>Move_Overhead = 30, nodestime = 0, Ponder = False\<rparr>
       \<lparr>time = 60000, inc = 0, movestogo = 0, npmsec = 0\<rparr> 1 tm0))
     \<le> maximumTime (snd (init ieee \<lparr>Move_Overhead = 30, nodestime = 0, Ponder = False\<rparr>
       \<lparr>time = 60000, inc = 0, movestogo = 0, npmsec = 0\<rparr> 1 tm0))"
  using init_maximum_bounds_optimum[OF fp_ok_ieee, of "\<lparr>Move_Overhead = 30, nodestime = 0, Ponder = False\<rparr>"
       "\<lparr>time = 60000, inc = 0, movestogo = 0, npmsec = 0\<rparr>" tm0 1] fp_ok_ieee
  by (simp add: valid_clock_def nodes_as_time_def)

text \<open>
  C1 as stated fails with Ponder on: with 1000 ms on the clock, an increment of 3000 ms and a
  move overhead of 30 ms both ratios are clipped to 1.0, so both durations are 970 ms before
  the inflation, and the optimum is 1212 ms after it.
\<close>

theorem init_ponder_optimum_exceeds_maximum:
  "\<not> optimumTime (snd (init ieee \<lparr>Move_Overhead = 30, nodestime = 0, Ponder = True\<rparr>
       \<lparr>time = 1000, inc = 3000, movestogo = 0, npmsec = 0\<rparr> 1 tm0))
     \<le> maximumTime (snd (init ieee \<lparr>Move_Overhead = 30, nodestime = 0, Ponder = True\<rparr>
       \<lparr>time = 1000, inc = 3000, movestogo = 0, npmsec = 0\<rparr> 1 tm0))"
  by (simp add: init_def nodes_as_time_def Let_def remaining_saturated[OF fp_ok_ieee]
      hyp_of_def int32_of_int64_def tdiv_def)

lemma init_clipped_values:
  "optimumTime (snd (init ieee \<lparr>Move_Overhead = 30, nodestime = 0, Ponder = True\<rparr>
       \<lparr>time = 1000, inc = 3000, movestogo = 0, npmsec = 0\<rparr> 1 tm0)) = 1212 \<and>
   maximumTime (snd (init ieee \<lparr>Move_Overhead = 30, nodestime = 0, Ponder = True\<rparr>
       \<lparr>time = 1000, inc = 3000, movestogo = 0, npmsec = 0\<rparr> 1 tm0)) = 970"
  by (simp add: init_def nodes_as_time_def Let_def remaining_saturated[OF fp_ok_ieee]
      hyp_of_def int32_of_int64_def tdiv_def)

text \<open>
  C8. For a valid clock of at most 1717986918 ms (taken after the conversion of the
  nodes-as-time mode) and a move overhead that is not negative, \<open>init\<close> with the option
  Ponder on sets \<open>optimumTime\<close> to the value it has with Ponder off plus a quarter of that
  value in C++ integer division (\<open>optimumTime += optimumTime / 4\<close>), and leaves \<open>maximumTime\<close>
  as it is with Ponder off. The bound on the clock keeps the sum inside the range of \<open>int\<close>.
  This is the amended claim: the increase is exactly 25 percent only when the optimum is a
  multiple of four.
\<close>

theorem init_ponder_adds_truncated_quarter:
  assumes "fp_ok fp"
    and "valid_clock (fst (nodes_as_time opts limits tm)) ply"
    and "time (fst (nodes_as_time opts limits tm)) \<le> 1717986918"
    and "0 \<le> Move_Overhead opts" "Move_Overhead opts < 2 ^ 31"
  shows "optimumTime (snd (init fp (opts\<lparr>Ponder := True\<rparr>) limits ply tm)) =
           optimumTime (snd (init fp (opts\<lparr>Ponder := False\<rparr>) limits ply tm))
             + tdiv (optimumTime (snd (init fp (opts\<lparr>Ponder := False\<rparr>) limits ply tm))) 4
       \<and> maximumTime (snd (init fp (opts\<lparr>Ponder := True\<rparr>) limits ply tm)) =
           maximumTime (snd (init fp (opts\<lparr>Ponder := False\<rparr>) limits ply tm))"
proof -
  obtain l1 t1 where n: "nodes_as_time opts limits tm = (l1, t1)"
    by (cases "nodes_as_time opts limits tm")
  have v: "0 \<le> ply" "ply < 2 ^ 31 - 1" "0 < time l1" "0 \<le> inc l1" "0 \<le> movestogo l1"
    and tl: "time l1 < 2 ^ 31" "time l1 \<le> 1717986918"
    using assms(2,3) by (simp_all add: n valid_clock_def)
  define ot where "ot = remaining fp OptimumTime (time l1) (inc l1) (Move_Overhead opts) (movestogo l1) ply"
  note b = remaining_bounds[OF assms(1) v, of "Move_Overhead opts"]
  have "ot \<le> hyp_of (time l1) (Move_Overhead opts)" unfolding ot_def using b(2,3) by linarith
  also have "\<dots> \<le> time l1" by (rule hyp_of_le_time[OF v(3) tl(1) assms(4,5)])
  finally have hi: "ot \<le> 1717986918" using tl(2) by simp
  have lo: "0 \<le> ot" unfolding ot_def by (rule b(1))
  have "tdiv ot 4 = ot div 4" using lo by (simp add: tdiv_4_cases)
  then have "0 \<le> ot + tdiv ot 4" "ot + tdiv ot 4 < 2 ^ 31" using lo hi by simp_all
  then have w: "int32_of_int64 (ot + tdiv ot 4) = ot + tdiv ot 4"
    by (intro int32_of_int64_id) simp_all
  have nT: "nodes_as_time (opts\<lparr>Ponder := True\<rparr>) limits tm = (l1, t1)"
    and nF: "nodes_as_time (opts\<lparr>Ponder := False\<rparr>) limits tm = (l1, t1)"
    by (simp_all add: nodes_as_time_Ponder n)
  show ?thesis
    using init_fields[OF nT, of fp ply] init_fields[OF nF, of fp ply] w
    by (simp add: Let_def ot_def)
qed

theorem init_ponder_adds_truncated_quarter_witness:
  "fp_ok ieee \<and>
   valid_clock (fst (nodes_as_time \<lparr>Move_Overhead = 30, nodestime = 0, Ponder = False\<rparr>
       \<lparr>time = 1031, inc = 3000, movestogo = 0, npmsec = 0\<rparr> tm0)) 1 \<and>
   time (fst (nodes_as_time \<lparr>Move_Overhead = 30, nodestime = 0, Ponder = False\<rparr>
       \<lparr>time = 1031, inc = 3000, movestogo = 0, npmsec = 0\<rparr> tm0)) \<le> 1717986918 \<and>
   optimumTime (snd (init ieee \<lparr>Move_Overhead = 30, nodestime = 0, Ponder = True\<rparr>
       \<lparr>time = 1031, inc = 3000, movestogo = 0, npmsec = 0\<rparr> 1 tm0)) =
     optimumTime (snd (init ieee \<lparr>Move_Overhead = 30, nodestime = 0, Ponder = False\<rparr>
       \<lparr>time = 1031, inc = 3000, movestogo = 0, npmsec = 0\<rparr> 1 tm0))
     + tdiv (optimumTime (snd (init ieee \<lparr>Move_Overhead = 30, nodestime = 0, Ponder = False\<rparr>
       \<lparr>time = 1031, inc = 3000, movestogo = 0, npmsec = 0\<rparr> 1 tm0))) 4"
  using init_ponder_adds_truncated_quarter[OF fp_ok_ieee, of "\<lparr>Move_Overhead = 30, nodestime = 0, Ponder = False\<rparr>"
       "\<lparr>time = 1031, inc = 3000, movestogo = 0, npmsec = 0\<rparr>" tm0 1] fp_ok_ieee
  by (simp add: valid_clock_def nodes_as_time_def)

text \<open>
  C8 as stated fails: with 1031 ms on the clock, an increment of 3000 ms and a move overhead
  of 30 ms the optimum is 1001 ms without Ponder and 1251 ms with it, not 1251.25.
\<close>

theorem init_ponder_not_exactly_25_percent:
  "real_of_int (optimumTime (snd (init ieee \<lparr>Move_Overhead = 30, nodestime = 0, Ponder = True\<rparr>
       \<lparr>time = 1031, inc = 3000, movestogo = 0, npmsec = 0\<rparr> 1 tm0))) \<noteq>
   1.25 * real_of_int (optimumTime (snd (init ieee \<lparr>Move_Overhead = 30, nodestime = 0, Ponder = False\<rparr>
       \<lparr>time = 1031, inc = 3000, movestogo = 0, npmsec = 0\<rparr> 1 tm0)))"
  by (simp add: init_def nodes_as_time_def Let_def remaining_saturated[OF fp_ok_ieee]
      hyp_of_def int32_of_int64_def tdiv_def)


section \<open>Properties of the transposition table\<close>

subsection \<open>Sizing\<close>

declare msb.simps [simp del]

lemma msb_bounds: "0 < n \<Longrightarrow> 2 ^ msb n \<le> n \<and> n < 2 ^ Suc (msb n)"
proof (induction n rule: msb.induct)
  case (1 n)
  show ?case
  proof (cases "n < 2")
    case True
    then have "n = 1" using "1.prems" by simp
    then show ?thesis by (simp add: msb.simps)
  next
    case False
    then have "0 < n div 2" by simp
    from "1.IH"[OF False this] have ih: "2 ^ msb (n div 2) \<le> n div 2" "n div 2 < 2 ^ Suc (msb (n div 2))"
      by simp_all
    have m: "msb n = Suc (msb (n div 2))" using False by (subst msb.simps) simp
    have "2 * 2 ^ msb (n div 2) \<le> n" using ih(1) by linarith
    moreover have "n < 2 * 2 ^ Suc (msb (n div 2))" using ih(2) by linarith
    ultimately show ?thesis by (simp add: m)
  qed
qed

lemma msb_unique:
  assumes "2 ^ k \<le> n" "n < 2 ^ Suc k"
  shows "msb n = k"
proof -
  have n0: "0 < n" using assms(1) by (metis less_le_trans zero_less_numeral zero_less_power)
  note b = msb_bounds[OF n0]
  have "(2::nat) ^ k < 2 ^ Suc (msb n)" using assms(1) b by linarith
  then have "k < Suc (msb n)" by (simp only: power_strict_increasing_iff one_less_numeral_iff semiring_norm)
  moreover have "(2::nat) ^ msb n < 2 ^ Suc k" using assms(2) b by linarith
  then have "msb n < Suc k" by (simp only: power_strict_increasing_iff one_less_numeral_iff semiring_norm)
  ultimately show ?thesis by simp
qed

lemma msb_pow2: "msb (2 ^ k) = k"
  by (rule msb_unique) simp_all

lemma msb_mult_pow2: "0 < n \<Longrightarrow> msb (n * 2 ^ k) = msb n + k"
proof (rule msb_unique)
  assume n: "0 < n"
  note b = msb_bounds[OF n]
  show "2 ^ (msb n + k) \<le> n * 2 ^ k" using b by (simp add: power_add)
  have "n * 2 ^ k < 2 ^ Suc (msb n) * 2 ^ k" using b by (intro mult_strict_right_mono) simp_all
  then show "n * 2 ^ k < 2 ^ Suc (msb n + k)" by (simp add: power_add)
qed

lemma Try_Get_fields:
  "clusterCount (Try_Get_LockMemory_Privileges os s) = clusterCount s"
  "mem (Try_Get_LockMemory_Privileges os s) = mem s"
  "table (Try_Get_LockMemory_Privileges os s) = table s"
  "cells (Try_Get_LockMemory_Privileges os s) = cells s"
  "generation8 (Try_Get_LockMemory_Privileges os s) = generation8 s"
  "large_pages_used (Try_Get_LockMemory_Privileges os s) = large_pages_used s"
  "mbSize_last_used (Try_Get_LockMemory_Privileges os s) = mbSize_last_used s"
  by (simp_all add: Try_Get_LockMemory_Privileges_def Let_def)



lemma allocate_fields:
  "clusterCount (allocate os s) = clusterCount s"
  "mbSize_last_used (allocate os s) = mbSize_last_used s"
  "generation8 (allocate os s) = generation8 s"
  by (simp_all add: allocate_def)

lemma allocate_mem_0: "mem (allocate os s) = 0 \<Longrightarrow> calloc os = 0"
  by (simp add: allocate_def split: if_splits)

lemma allocate_mem_calloc: "calloc os \<noteq> 0 \<Longrightarrow> mem (allocate os s) \<noteq> 0"
  by (simp add: allocate_def split: if_splits)

text \<open>The outcomes of \<open>resize\<close> with a non-zero size for which \<open>msb\<close> is defined.\<close>

lemma resize_cases:
  assumes "mb \<noteq> 0" "(mb * 1024 * 1024) mod 2 ^ 64 div sizeof_Cluster L \<noteq> 0"
  shows "(resize L os mb s = Inl Allocation_Failure \<and> calloc os = 0) \<or>
         (\<exists>s'. resize L os mb s = Inr s' \<and> clusterCount s' = newClusterCount L mb \<and>
               mbSize_last_used s' = mb \<and> generation8 s' = generation8 s \<and>
               (length (cells s) = clusterCount s \<longrightarrow> length (cells s') = clusterCount s'))"
  using assms
  by (auto simp add: resize_def Let_def Try_Get_fields allocate_fields dest: allocate_mem_0)

lemma resize_returns:
  assumes "mb \<noteq> 0" "(mb * 1024 * 1024) mod 2 ^ 64 div sizeof_Cluster L \<noteq> 0" "calloc os \<noteq> 0"
  shows "\<exists>s'. resize L os mb s = Inr s'"
  using resize_cases[OF assms(1,2), of os s] assms(3) by auto

lemma no_wrap: "mb < 2 ^ 44 \<Longrightarrow> (mb * 1024 * 1024) mod 2 ^ 64 = mb * 1024 * 1024" for mb :: nat
proof -
  assume "mb < 2 ^ 44"
  then have "mb * 1024 * 1024 < 2 ^ 44 * 1024 * 1024" by simp
  then have "mb * 1024 * 1024 < (2::nat) ^ 64" by simp
  then show ?thesis by simp
qed

lemma newClusterCount_no_wrap:
  "mb < 2 ^ 44 \<Longrightarrow> newClusterCount L mb = 2 ^ msb (mb * 1024 * 1024 div sizeof_Cluster L)"
  unfolding newClusterCount_def by (simp only: no_wrap)

lemma floor_log2_quotient:
  fixes B c :: nat
  assumes "0 < c" "c \<le> B"
  shows "nat \<lfloor>log 2 (real B / real c)\<rfloor> = msb (B div c)"
proof -
  define q where "q = B div c"
  have q0: "0 < q" using assms by (simp add: q_def div_greater_zero_iff)
  note b = msb_bounds[OF q0]
  have lo: "real q \<le> real B / real c"
    using assms(1) unfolding q_def
    by (metis of_nat_0_less_iff of_nat_mult pos_le_divide_eq of_nat_le_iff div_times_less_eq_dividend)
  have "B < (q + 1) * c" unfolding q_def using assms(1)
    by (metis Suc_eq_plus1 dividend_less_div_times mult.commute mult_Suc_right add.commute)
  then have "real B < real ((q + 1) * c)" by (rule of_nat_less_iff[THEN iffD2])
  then have hi: "real B / real c < real q + 1"
    using assms(1) by (simp add: pos_divide_less_eq algebra_simps)
  have p1: "2 powr real_of_int (int (msb q)) = real (2 ^ msb q)"
    by (simp add: powr_realpow)
  have p2: "2 powr real_of_int (int (msb q) + 1) = real (2 ^ Suc (msb q))"
    by (simp add: powr_add powr_realpow)
  have "real (2 ^ msb q) \<le> real q" using b by (intro of_nat_le_iff[THEN iffD2]) simp
  then have l2: "2 powr real_of_int (int (msb q)) \<le> real B / real c"
    unfolding p1 using lo by linarith
  have "q + 1 \<le> 2 ^ Suc (msb q)" using b by simp
  then have "real (q + 1) \<le> real (2 ^ Suc (msb q))" by (rule of_nat_le_iff[THEN iffD2])
  moreover have "real (q + 1) = real q + 1" by simp
  ultimately have h2: "real B / real c < 2 powr real_of_int (int (msb q) + 1)"
    unfolding p2 using hi by linarith
  have pos: "0 < real B / real c" using assms by simp
  have "\<lfloor>log 2 (real B / real c)\<rfloor> = int (msb q)"
    using floor_log_eq_powr_iff[of "real B / real c" 2 "int (msb q)"] pos l2 h2 by simp
  then show ?thesis by (simp add: q_def)
qed

lemma newClusterCount_fits:
  fixes mb :: nat
  assumes "mb < 2 ^ 44" "0 < sizeof_Cluster L" "sizeof_Cluster L \<le> mb * 1024 * 1024"
  shows "newClusterCount L mb * sizeof_Cluster L \<le> mb * 1024 * 1024"
    and "mb * 1024 * 1024 < 2 * newClusterCount L mb * sizeof_Cluster L"
proof -
  define B where "B = mb * 1024 * 1024"
  define c where "c = sizeof_Cluster L"
  define q where "q = B div c"
  have q0: "0 < q" using assms by (simp add: q_def B_def c_def div_greater_zero_iff)
  note b = msb_bounds[OF q0]
  have n: "newClusterCount L mb = 2 ^ msb q"
    unfolding q_def B_def c_def by (rule newClusterCount_no_wrap[OF assms(1)])
  have "2 ^ msb q * c \<le> q * c" using b by (intro mult_right_mono) simp_all
  also have "q * c \<le> B" by (simp add: q_def)
  finally show "newClusterCount L mb * sizeof_Cluster L \<le> mb * 1024 * 1024"
    by (simp add: n B_def c_def)
  have "B < (q + 1) * c" unfolding q_def using assms(2) c_def
    by (metis Suc_eq_plus1 dividend_less_div_times mult.commute mult_Suc_right add.commute)
  also have "(q + 1) * c \<le> 2 ^ Suc (msb q) * c" using b by (intro mult_right_mono) simp_all
  finally show "mb * 1024 * 1024 < 2 * newClusterCount L mb * sizeof_Cluster L"
    by (simp add: n B_def c_def)
qed

lemma resize_last_used:
  assumes "mb \<noteq> 0" "resize L os mb s = Inr s'"
  shows "mbSize_last_used s' = mb"
  using assms
  by (auto simp add: resize_def Let_def Try_Get_fields allocate_fields split: if_splits)

text \<open>Concrete values for the layout of the upstream engine.\<close>

lemma Stockfish_layout_simps:
  "ClusterSize Stockfish_layout = 3" "sizeof_Cluster Stockfish_layout = 32"
  "CacheLineSize Stockfish_layout = 64"
  by (simp_all add: Stockfish_layout_def)

lemma msb_524288: "msb 524288 = 19"
  using msb_pow2[of 19] by simp

lemma newClusterCount_16MB: "newClusterCount Stockfish_layout 16 = 524288"
  by (simp add: newClusterCount_def Stockfish_layout_simps msb_524288)

lemma resize_TT0_16MB: "resize Stockfish_layout plain_os 16 TT0 = Inr TT_16MB"
  by (simp add: resize_def Let_def newClusterCount_16MB Try_Get_LockMemory_Privileges_def
      allocate_def TT0_def plain_os_def TT_16MB_def Stockfish_layout_simps)

text \<open>
  C4. For a megabyte size \<open>mb\<close> with \<open>0 < mb < 2^44\<close> (so that \<open>mb * 1024 * 1024\<close> does not
  wrap in \<open>size_t\<close>) that has room for at least one cluster, \<open>resize(mb)\<close> either ends the
  process because the allocation failed, or returns with \<open>clusterCount\<close> equal to
  \<open>2^floor(log2(mb * 1024 * 1024 / sizeof(Cluster)))\<close>, which is the largest power of two
  whose total byte size does not exceed the requested bytes.
\<close>

theorem resize_clusterCount_floor_log2:
  fixes mb :: nat
  assumes "0 < mb" "mb < 2 ^ 44" "0 < sizeof_Cluster L" "sizeof_Cluster L \<le> mb * 1024 * 1024"
  shows "(\<exists>s'. resize L os mb s = Inr s' \<and>
              clusterCount s' = 2 ^ nat \<lfloor>log 2 (real (mb * 1024 * 1024) / real (sizeof_Cluster L))\<rfloor> \<and>
              clusterCount s' * sizeof_Cluster L \<le> mb * 1024 * 1024 \<and>
              mb * 1024 * 1024 < 2 * clusterCount s' * sizeof_Cluster L)
         \<or> (resize L os mb s = Inl Allocation_Failure \<and> calloc os = 0)"
proof -
  have q: "(mb * 1024 * 1024) mod 2 ^ 64 div sizeof_Cluster L \<noteq> 0"
    using assms by (simp add: no_wrap div_greater_zero_iff)
  have n: "newClusterCount L mb = 2 ^ nat \<lfloor>log 2 (real (mb * 1024 * 1024) / real (sizeof_Cluster L))\<rfloor>"
    unfolding floor_log2_quotient[OF assms(3,4)] by (rule newClusterCount_no_wrap[OF assms(2)])
  from assms(1) have mb: "mb \<noteq> 0" by simp
  from resize_cases[OF mb q, of os s] show ?thesis
  proof
    assume "resize L os mb s = Inl Allocation_Failure \<and> calloc os = 0"
    then show ?thesis by simp
  next
    assume "\<exists>s'. resize L os mb s = Inr s' \<and> clusterCount s' = newClusterCount L mb \<and>
               mbSize_last_used s' = mb \<and> generation8 s' = generation8 s \<and>
               (length (cells s) = clusterCount s \<longrightarrow> length (cells s') = clusterCount s')"
    then obtain s' where s': "resize L os mb s = Inr s'" "clusterCount s' = newClusterCount L mb"
      by blast
    have "clusterCount s' * sizeof_Cluster L \<le> mb * 1024 * 1024"
      "mb * 1024 * 1024 < 2 * clusterCount s' * sizeof_Cluster L"
      using newClusterCount_fits[OF assms(2,3,4)] by (simp_all add: s'(2))
    then show ?thesis using s' n by simp
  qed
qed

theorem resize_clusterCount_floor_log2_witness:
  "(0::nat) < 3 \<and> (3::nat) < 2 ^ 44 \<and> 0 < sizeof_Cluster Stockfish_layout \<and>
   sizeof_Cluster Stockfish_layout \<le> 3 * 1024 * 1024 \<and>
   (\<exists>s'. resize Stockfish_layout plain_os 3 TT0 = Inr s' \<and>
      clusterCount s' = 2 ^ nat \<lfloor>log 2 (real (3 * 1024 * 1024) / real (sizeof_Cluster Stockfish_layout))\<rfloor> \<and>
      clusterCount s' = 65536 \<and>
      clusterCount s' * sizeof_Cluster Stockfish_layout \<le> 3 * 1024 * 1024 \<and>
      3 * 1024 * 1024 < 2 * clusterCount s' * sizeof_Cluster Stockfish_layout)"
proof -
  have h: "(0::nat) < 3" "(3::nat) < 2 ^ 44" "0 < sizeof_Cluster Stockfish_layout"
    "sizeof_Cluster Stockfish_layout \<le> 3 * 1024 * 1024"
    by (simp_all add: Stockfish_layout_simps)
  have c: "calloc plain_os \<noteq> 0" by (simp add: plain_os_def)
  from resize_clusterCount_floor_log2[OF h, of plain_os TT0] c
  obtain s' where s': "resize Stockfish_layout plain_os 3 TT0 = Inr s'"
    "clusterCount s' = 2 ^ nat \<lfloor>log 2 (real (3 * 1024 * 1024) / real (sizeof_Cluster Stockfish_layout))\<rfloor>"
    "clusterCount s' * sizeof_Cluster Stockfish_layout \<le> 3 * 1024 * 1024"
    "3 * 1024 * 1024 < 2 * clusterCount s' * sizeof_Cluster Stockfish_layout"
    by blast
  have "msb 98304 = 16" by (rule msb_unique) simp_all
  then have n: "newClusterCount Stockfish_layout 3 = 65536"
    by (simp add: newClusterCount_def Stockfish_layout_simps)
  have "(3::nat) \<noteq> 0" "(3 * 1024 * 1024) mod 2 ^ 64 div sizeof_Cluster Stockfish_layout \<noteq> 0"
    by (simp_all add: Stockfish_layout_simps)
  from resize_cases[OF this, of plain_os TT0] s'(1) n have "clusterCount s' = 65536" by auto
  then show ?thesis using h s' by blast
qed











text \<open>
  C10. \<open>resize(0)\<close> on a table that has no last-used size, as at program start, changes
  nothing. After a \<open>resize(N)\<close> that returned, with \<open>N\<close> not zero, \<open>resize(0)\<close> behaves
  exactly as \<open>resize(N)\<close>.
\<close>

theorem resize_zero_reuses_last_size:
  "(mbSize_last_used s = 0 \<longrightarrow> resize L os 0 s = Inr s)
   \<and> resize L os 0 TT0 = Inr TT0
   \<and> (N \<noteq> 0 \<and> resize L os N s = Inr s' \<longrightarrow> resize L os' 0 s' = resize L os' N s')"
proof (intro conjI impI)
  show "resize L os 0 s = Inr s" if "mbSize_last_used s = 0"
    using that by (simp add: resize_def)
  show "resize L os 0 TT0 = Inr TT0" by (simp add: resize_def TT0_def)
  show "resize L os' 0 s' = resize L os' N s'" if "N \<noteq> 0 \<and> resize L os N s = Inr s'"
  proof -
    have "mbSize_last_used s' = N" using that resize_last_used by blast
    then show ?thesis using that by (simp add: resize_def)
  qed
qed

theorem resize_zero_reuses_last_size_witness:
  "mbSize_last_used TT0 = 0 \<and> resize Stockfish_layout plain_os 0 TT0 = Inr TT0 \<and>
   (16::nat) \<noteq> 0 \<and> resize Stockfish_layout plain_os 16 TT0 = Inr TT_16MB \<and>
   resize Stockfish_layout plain_os 0 TT_16MB = resize Stockfish_layout plain_os 16 TT_16MB"
  using resize_zero_reuses_last_size[of TT0 Stockfish_layout plain_os 16 TT_16MB plain_os] resize_TT0_16MB
  by (simp add: TT0_def)

subsection \<open>Probing a cleared table\<close>

lemma first_entry_less:
  assumes "0 < clusterCount s" "clusterCount s < 2 ^ 64"
  shows "first_entry key s < clusterCount s"
proof -
  define w :: "64 word" where "w = word_of_nat (clusterCount s)"
  have u: "unat w = clusterCount s"
    unfolding w_def using assms(2) by (simp add: unat_of_nat)
  then have "w \<noteq> 0" using assms(1) by (metis unat_0 less_irrefl)
  then have "unat (w - 1) = clusterCount s - 1" using u by (simp add: unat_minus_one)
  moreover have "key AND (w - 1) \<le> w - 1" by (rule word_and_le1)
  then have "unat (key AND (w - 1)) \<le> unat (w - 1)" by (simp add: word_le_nat_alt)
  ultimately show ?thesis using assms(1) by (simp add: first_entry_def w_def)
qed

lemma first_entry_clear: "first_entry key (clear L s) = first_entry key s"
  by (simp add: first_entry_def clear_def)

lemma probe_clear:
  assumes "0 < ClusterSize L" "0 < clusterCount s" "clusterCount s < 2 ^ 64"
  shows "probe L key (clear L s) = Inr ((False, first_entry key s, 0), clear L s)"
proof -
  have c: "first_entry key s < clusterCount s" by (rule first_entry_less[OF assms(2,3)])
  have cell: "cells (clear L s) ! first_entry key s = zero_cluster L"
    using c by (simp add: clear_def)
  have e0: "entry (zero_cluster L) ! 0 = zero_entry"
    using assms(1) by (simp add: zero_cluster_def)
  have up: "[0..<ClusterSize L] = 0 # [Suc 0..<ClusterSize L]"
    using assms(1) by (rule upt_conv_Cons)
  have len: "\<not> length (cells (clear L s)) \<le> first_entry key s"
    using c by (simp add: clear_def)
  show ?thesis
    unfolding probe_def Let_def first_entry_clear
    using len by (simp add: cell up e0 zero_entry_def)
qed

text \<open>
  C2. On a sized table, after \<open>clear()\<close>, \<open>probe(key)\<close> returns \<open>found = false\<close> for every
  64-bit key, the slot it returns exists and has a zero \<open>key16\<close>, and the table is left as
  \<open>clear()\<close> made it.
\<close>

theorem probe_after_clear_misses:
  assumes "0 < ClusterSize L" "0 < clusterCount s" "clusterCount s < 2 ^ 64"
  shows "\<exists>c i. probe L key (clear L s) = Inr ((False, c, i), clear L s) \<and>
               c < length (cells (clear L s)) \<and>
               i < length (entry (cells (clear L s) ! c)) \<and>
               key16 (entry (cells (clear L s) ! c) ! i) = 0"
proof -
  have c: "first_entry key s < clusterCount s" by (rule first_entry_less[OF assms(2,3)])
  have "key16 (entry (cells (clear L s) ! first_entry key s) ! 0) = 0"
    using c assms(1) by (simp add: clear_def zero_cluster_def zero_entry_def)
  moreover have "0 < length (entry (cells (clear L s) ! first_entry key s))"
    using c assms(1) by (simp add: clear_def zero_cluster_def)
  moreover have "first_entry key s < length (cells (clear L s))"
    using c by (simp add: clear_def)
  ultimately show ?thesis using probe_clear[OF assms] by blast
qed

theorem probe_after_clear_misses_witness:
  "0 < ClusterSize Stockfish_layout \<and> 0 < clusterCount TT_16MB \<and> clusterCount TT_16MB < 2 ^ 64 \<and>
   (\<exists>c i. probe Stockfish_layout 0x123456789ABCDEF0 (clear Stockfish_layout TT_16MB)
             = Inr ((False, c, i), clear Stockfish_layout TT_16MB) \<and>
          c < length (cells (clear Stockfish_layout TT_16MB)) \<and>
          i < length (entry (cells (clear Stockfish_layout TT_16MB) ! c)) \<and>
          key16 (entry (cells (clear Stockfish_layout TT_16MB) ! c) ! i) = 0)"
proof -
  have h: "0 < ClusterSize Stockfish_layout" "0 < clusterCount TT_16MB" "clusterCount TT_16MB < 2 ^ 64"
    by (simp_all add: Stockfish_layout_simps TT_16MB_def)
  from probe_after_clear_misses[OF h] h show ?thesis by blast
qed


subsection \<open>Occupation\<close>

lemma fold_count:
  "fold (\<lambda>j cnt. if P j then cnt + 1 else cnt) js (c::int) = c + int (length (filter P js))"
  by (induction js arbitrary: c) simp_all

lemma length_filter_Pair:
  "filter ((\<lambda>(i, j). P i j) \<circ> Pair i) js = filter (P i) js"
  by (simp add: comp_def)

lemma fold_add_count:
  "fold (\<lambda>i a. a + int (length (filter (P i) js))) is (c::int)
     = c + int (length (filter (\<lambda>(i, j). P i j) (List.product is js)))"
  by (induction "is" arbitrary: c) (simp_all add: length_filter_Pair)

lemma fold_fold_count:
  "fold (\<lambda>i cnt. fold (\<lambda>j cnt. if P i j then cnt + 1 else cnt) js cnt) is (c::int)
     = c + int (length (filter (\<lambda>(i, j). P i j) (List.product is js)))"
  by (simp only: fold_count fold_add_count)

lemma hashfull_counts:
  assumes "1000 div ClusterSize L \<le> length (cells s)"
  shows "hashfull L s = Inr (int (length (fresh_slots L s)))"
  using assms by (simp add: hashfull_def fresh_slots_def fold_fold_count)

lemma length_fresh_slots_le: "length (fresh_slots L s) \<le> 1000 div ClusterSize L * ClusterSize L"
proof -
  have "length (fresh_slots L s) \<le> length (List.product [0..<1000 div ClusterSize L] [0..<ClusterSize L])"
    unfolding fresh_slots_def by (rule length_filter_le)
  then show ?thesis by simp
qed

lemma fresh_slots_clear:
  assumes "1000 div ClusterSize L \<le> clusterCount s"
  shows "fresh_slots L (clear L s) =
           (if generation8 s = 0 then List.product [0..<1000 div ClusterSize L] [0..<ClusterSize L] else [])"
proof -
  have z: "genBound8 (entry (cells (clear L s) ! i) ! j) AND 0xFC = 0"
    if "(i, j) \<in> set (List.product [0..<1000 div ClusterSize L] [0..<ClusterSize L])" for i j
  proof -
    from that have "i < clusterCount s" "j < ClusterSize L" using assms by auto
    then show ?thesis by (simp add: clear_def zero_cluster_def zero_entry_def)
  qed
  have g: "generation8 (clear L s) = generation8 s" by (simp add: clear_def)
  show ?thesis
  proof (cases "generation8 s = 0")
    case True
    have "filter (\<lambda>(i, j). (genBound8 (entry (cells (clear L s) ! i) ! j) AND 0xFC) = generation8 (clear L s))
            (List.product [0..<1000 div ClusterSize L] [0..<ClusterSize L])
          = List.product [0..<1000 div ClusterSize L] [0..<ClusterSize L]"
      unfolding g True by (rule filter_True) (use z in auto)
    then show ?thesis using True by (simp add: fresh_slots_def)
  next
    case False
    have "filter (\<lambda>(i, j). (genBound8 (entry (cells (clear L s) ! i) ! j) AND 0xFC) = generation8 (clear L s))
            (List.product [0..<1000 div ClusterSize L] [0..<ClusterSize L]) = []"
      unfolding g filter_empty_conv using z False by (metis (mono_tags, lifting) case_prodE case_prod_conv)
    then show ?thesis using False by (simp add: fresh_slots_def)
  qed
qed

lemma hashfull_clear:
  assumes "1000 div ClusterSize L \<le> clusterCount s"
  shows "hashfull L (clear L s) =
           Inr (if generation8 s = 0 then int (1000 div ClusterSize L * ClusterSize L) else 0)"
proof -
  have "1000 div ClusterSize L \<le> length (cells (clear L s))" using assms by (simp add: clear_def)
  from hashfull_counts[OF this] show ?thesis
    by (simp add: fresh_slots_clear[OF assms])
qed

text \<open>
  C7. The code does not do what the claim says. On the table of 16 MB that \<open>resize(16)\<close>
  builds at program start, whose generation is 0, \<open>hashfull()\<close> immediately after \<open>clear()\<close>
  is 999 and not 0: every zeroed slot of the scanned clusters has the generation bits of the
  current generation.
\<close>

theorem hashfull_after_clear_generation_zero:
  "resize Stockfish_layout plain_os 16 TT0 = Inr TT_16MB \<and>
   hashfull Stockfish_layout (clear Stockfish_layout TT_16MB) = Inr 999 \<and>
   hashfull Stockfish_layout (clear Stockfish_layout TT_16MB) \<noteq> Inr 0"
proof -
  have "1000 div ClusterSize Stockfish_layout \<le> clusterCount TT_16MB"
    by (simp add: Stockfish_layout_simps TT_16MB_def)
  from hashfull_clear[OF this] resize_TT0_16MB show ?thesis
    by (simp add: Stockfish_layout_simps TT_16MB_def)
qed

subsection \<open>Saving and loading\<close>

lemma megabytes_of_size:
  "nat (tdiv (tdiv (int n) 1024) 1024) = n div 2 ^ 20"
proof -
  have a: "tdiv (int n) 1024 = int n div 1024" by (rule tdiv_nonneg) simp_all
  have b: "tdiv (int n div 1024) 1024 = int n div 1024 div 1024"
    by (rule tdiv_nonneg) (simp_all add: pos_imp_zdiv_nonneg_iff)
  have "int n div 1024 div 1024 = int (n div 1024 div 1024)" by (simp add: zdiv_int)
  moreover have "n div 1024 div 1024 = n div 2 ^ 20" by (simp add: div_mult2_eq[symmetric])
  ultimately show ?thesis by (simp add: a b)
qed

lemma sized_clusterCount:
  assumes "sizeof_Cluster L = 2 ^ j" "j \<le> 20" "sized L t"
  shows "clusterCount t = 2 ^ (msb (mbSize_last_used t) + (20 - j))"
proof -
  define mb where "mb = mbSize_last_used t"
  have mb: "0 < mb" "mb < 2 ^ 44" using assms(3) by (simp_all add: sized_def mb_def)
  have "(2::nat) ^ 20 = 2 ^ (20 - j) * 2 ^ j" using assms(2) by (simp add: power_add[symmetric])
  then have "mb * 1024 * 1024 = mb * 2 ^ (20 - j) * 2 ^ j" by simp
  then have "mb * 1024 * 1024 div sizeof_Cluster L = mb * 2 ^ (20 - j)"
    by (simp only: assms(1)) simp
  then have "newClusterCount L mb = 2 ^ msb (mb * 2 ^ (20 - j))"
    by (simp only: newClusterCount_no_wrap[OF mb(2)])
  then show ?thesis using assms(3) mb(1) by (simp add: sized_def mb_def msb_mult_pow2)
qed

lemma saved_file:
  assumes "length (cells t) = clusterCount t" "save fs t = (True, fs')"
  shows "hashfile fs' = Some (cells t)"
  using assms by (auto simp add: save_def Let_def split: if_splits)

lemma msb_le_self: "0 < n \<Longrightarrow> 2 ^ msb n \<le> n"
  using msb_bounds by blast

lemma resize_sized:
  assumes "0 < mb" "mb < 2 ^ 44" "length (cells s) = clusterCount s" "resize L os mb s = Inr s'"
  shows "sized L s'"
proof (cases "(mb * 1024 * 1024) mod 2 ^ 64 div sizeof_Cluster L = 0")
  case True
  then show ?thesis using assms(1,4) by (simp add: resize_def Let_def)
next
  case False
  from assms(1) have "mb \<noteq> 0" by simp
  from resize_cases[OF this False, of os s] assms(2,3,4) assms(1) show ?thesis
    by (auto simp add: sized_def)
qed

text \<open>
  C3. Let the size of a cluster be a power of two of at most \<open>2^20\<close> bytes, let \<open>t\<close> be a
  sized table and let \<open>save\<close> on \<open>t\<close> return true. Then \<open>load\<close> into any table \<open>t'\<close>, in
  particular a fresh one of the same size, either ends the process because the allocation
  failed, or returns a table whose slot contents are those of \<open>t\<close>, cluster by cluster, and
  whose cluster count is the one the byte length of the file gives: \<open>load\<close> has resized the
  table to the size of the file before reading.
\<close>

theorem load_after_save_restores_table:
  assumes "sizeof_Cluster L = 2 ^ j" "j \<le> 20"
    and "sized L t" "save fs t = (True, fs')"
    and "length (cells t') = clusterCount t'"
  shows "(\<exists>t''. load L os fs' t' = Inr t'' \<and> cells t'' = cells t \<and>
               clusterCount t'' = clusterCount t \<and>
               int (clusterCount t'' * sizeof_Cluster L) = file_size L fs')
         \<or> (load L os fs' t' = Inl Allocation_Failure \<and> calloc os = 0)"
proof -
  define mb where "mb = mbSize_last_used t"
  define k where "k = msb mb"
  have mb: "0 < mb" "mb < 2 ^ 44" using assms(3) by (simp_all add: sized_def mb_def)
  have len: "length (cells t) = clusterCount t" using assms(3) by (simp add: sized_def)
  have cc: "clusterCount t = 2 ^ (k + (20 - j))"
    unfolding k_def mb_def by (rule sized_clusterCount[OF assms(1,2,3)])
  have hf: "hashfile fs' = Some (cells t)" by (rule saved_file[OF len assms(4)])
  have bytes: "clusterCount t * sizeof_Cluster L = 2 ^ k * 2 ^ 20"
  proof -
    have "clusterCount t * sizeof_Cluster L = 2 ^ (k + (20 - j) + j)"
      by (simp only: cc assms(1) power_add)
    also have "k + (20 - j) + j = k + 20" using assms(2) by simp
    finally show ?thesis by (simp add: power_add)
  qed
  have fsz: "file_size L fs' = int (2 ^ k * 2 ^ 20)"
    by (simp only: file_size_def hf option.case len bytes)
  have arg: "nat (tdiv (tdiv (file_size L fs') 1024) 1024) = 2 ^ k"
    by (simp only: fsz megabytes_of_size) simp
  have k44: "(2::nat) ^ k < 2 ^ 44"
    using msb_le_self[OF mb(1)] mb(2) unfolding k_def by linarith
  have ne: "(2::nat) ^ k \<noteq> 0" by simp
  have "(2::nat) ^ 20 = 2 ^ (20 - j) * 2 ^ j" using assms(2) by (simp add: power_add[symmetric])
  then have "(2::nat) ^ k * 1024 * 1024 = 2 ^ (k + (20 - j)) * 2 ^ j" by (simp add: power_add)
  then have q: "(2::nat) ^ k * 1024 * 1024 div sizeof_Cluster L = 2 ^ (k + (20 - j))"
    by (simp only: assms(1)) simp
  have nw: "((2::nat) ^ k * 1024 * 1024) mod 2 ^ 64 = 2 ^ k * 1024 * 1024"
    by (rule no_wrap[OF k44])
  have b: "((2::nat) ^ k * 1024 * 1024) mod 2 ^ 64 div sizeof_Cluster L \<noteq> 0"
    by (simp only: nw q) simp
  have ncc: "newClusterCount L (2 ^ k) = clusterCount t"
    by (simp only: newClusterCount_no_wrap[OF k44] q msb_pow2 cc)
  from resize_cases[OF ne b, of os t'] show ?thesis
  proof
    assume "resize L os (2 ^ k) t' = Inl Allocation_Failure \<and> calloc os = 0"
    then show ?thesis by (simp add: load_def arg)
  next
    assume "\<exists>s'. resize L os (2 ^ k) t' = Inr s' \<and> clusterCount s' = newClusterCount L (2 ^ k) \<and>
               mbSize_last_used s' = 2 ^ k \<and> generation8 s' = generation8 t' \<and>
               (length (cells t') = clusterCount t' \<longrightarrow> length (cells s') = clusterCount s')"
    then obtain s1 where s1: "resize L os (2 ^ k) t' = Inr s1" "clusterCount s1 = clusterCount t"
      "length (cells s1) = clusterCount s1"
      using ncc assms(5) by auto
    have "load L os fs' t' = Inr (s1\<lparr>cells := cells t\<rparr>)"
      using s1 len by (simp add: load_def arg hf Let_def)
    moreover have "int (clusterCount t * sizeof_Cluster L) = file_size L fs'"
      by (simp only: fsz bytes)
    ultimately show ?thesis using s1(2) by simp
  qed
qed

theorem load_after_save_restores_table_witness:
  "sizeof_Cluster Stockfish_layout = 2 ^ 5 \<and> (5::nat) \<le> 20 \<and>
   sized Stockfish_layout TT_16MB_stored \<and>
   save empty_disk TT_16MB_stored = (True, empty_disk\<lparr>hashfile := Some (cells TT_16MB_stored)\<rparr>) \<and>
   length (cells TT_16MB) = clusterCount TT_16MB \<and>
   (\<exists>t''. load Stockfish_layout plain_os (empty_disk\<lparr>hashfile := Some (cells TT_16MB_stored)\<rparr>) TT_16MB
             = Inr t'' \<and>
          cells t'' = cells TT_16MB_stored \<and>
          clusterCount t'' = clusterCount TT_16MB_stored \<and>
          int (clusterCount t'' * sizeof_Cluster Stockfish_layout)
            = file_size Stockfish_layout (empty_disk\<lparr>hashfile := Some (cells TT_16MB_stored)\<rparr>))"
proof -
  have h: "sizeof_Cluster Stockfish_layout = 2 ^ 5" "(5::nat) \<le> 20"
    "sized Stockfish_layout TT_16MB_stored"
    "save empty_disk TT_16MB_stored = (True, empty_disk\<lparr>hashfile := Some (cells TT_16MB_stored)\<rparr>)"
    "length (cells TT_16MB) = clusterCount TT_16MB"
    by (simp_all add: Stockfish_layout_simps sized_def TT_16MB_stored_def TT_16MB_def
        newClusterCount_16MB save_def empty_disk_def Let_def)
  have c: "calloc plain_os \<noteq> 0" by (simp add: plain_os_def)
  from load_after_save_restores_table[OF h, of plain_os] c h show ?thesis by blast
qed


section \<open>Properties of the NUMA registry\<close>

subsection \<open>Preferred node of a thread\<close>

lemma line_from_Nil: "line_from n [] = []"
  by (simp add: line_from_def)

lemma line_from_Cons:
  "line_from n (node # nodes) = replicate (NumaNode.coreCount node) n @ line_from (Suc n) nodes"
proof -
  have "[0..<length (node # nodes)] = 0 # map Suc [0..<length nodes]"
    by (simp add: upt_conv_Cons map_Suc_upt del: upt_Suc)
  then show ?thesis by (simp add: line_from_def comp_def del: upt_Suc)
qed

lemma segment_line_line_from: "segment_line nodes = line_from 0 nodes"
  by (simp add: segment_line_def line_from_def)

lemma length_line_from:
  "length (line_from n nodes) = sum_list (map NumaNode.coreCount nodes)"
  by (induction nodes arbitrary: n) (simp_all add: line_from_Nil line_from_Cons)

lemma segment_walk_line:
  assumes "0 \<le> i" "i < int (length (line_from n nodes))" "length (line_from n nodes) < 2 ^ 31"
  shows "segment_walk nodes n i = Some (line_from n nodes ! nat i)"
  using assms
proof (induction nodes arbitrary: n i)
  case Nil
  then show ?case by (simp add: line_from_Nil)
next
  case (Cons node nodes)
  define c where "c = NumaNode.coreCount node"
  have len: "length (line_from n (node # nodes)) = c + length (line_from (Suc n) nodes)"
    by (simp add: line_from_Cons c_def)
  have c31: "int c < 2 ^ 31" using Cons.prems(3) len by simp
  have r: "int32_of_int64 (i - int c) = i - int c"
    using Cons.prems(1,2,3) c31 len by (intro int32_of_int64_id) simp_all
  show ?case
  proof (cases "i < int c")
    case True
    then have "nat i < c" using Cons.prems(1) by simp
    then have "line_from n (node # nodes) ! nat i = n"
      by (simp add: line_from_Cons c_def[symmetric] nth_append)
    then show ?thesis using True r by (simp add: c_def[symmetric])
  next
    case False
    have p: "0 \<le> i - int c" "i - int c < int (length (line_from (Suc n) nodes))"
      "length (line_from (Suc n) nodes) < 2 ^ 31"
      using False Cons.prems len by simp_all
    have "nat i - c = nat (i - int c)" using False by simp
    moreover have "\<not> nat i < c" using False by simp
    ultimately have "line_from n (node # nodes) ! nat i = line_from (Suc n) nodes ! nat (i - int c)"
      by (simp add: line_from_Cons c_def[symmetric] nth_append)
    then show ?thesis using False r Cons.IH[OF p] by (simp add: c_def[symmetric])
  qed
qed

lemma nodeForThread_segment:
  assumes "coreCount s = sum_list (map NumaNode.coreCount (nodeVector s))"
    and "0 < coreCount s" "coreCount s < 2 ^ 31"
  shows "nodeForThread s threadIdx = Inr (segment_line (nodeVector s) ! (threadIdx mod coreCount s))"
proof -
  define p where "p = threadIdx mod coreCount s"
  have len: "length (line_from 0 (nodeVector s)) = coreCount s"
    by (simp add: length_line_from assms(1))
  have p1: "p < coreCount s" unfolding p_def using assms(2) by simp
  have r: "int32_of_int64 (int p) = int p"
    using p1 assms(3) by (intro int32_of_int64_id) simp_all
  have w: "segment_walk (nodeVector s) 0 (int p) = Some (line_from 0 (nodeVector s) ! p)"
    using segment_walk_line[of "int p" 0 "nodeVector s"] p1 assms(3) len by simp
  show ?thesis
  proof (cases "length (nodeVector s) = 1")
    case True
    then obtain node where n: "nodeVector s = [node]" by (cases "nodeVector s") simp_all
    have "line_from 0 [node] ! p = 0"
      using p1 assms(1) by (simp add: line_from_Cons line_from_Nil n)
    then show ?thesis using True by (simp add: nodeForThread_def segment_line_line_from n p_def)
  next
    case False
    then show ?thesis
      using assms(2) w r by (simp add: nodeForThread_def segment_line_line_from p_def[symmetric])
  qed
qed

lemma nodeForThread_two_by_four:
  "map (nodeForThread two_by_four) [0, 1, 2, 3, 4, 5, 6, 7, 9] = map Inr [0, 0, 0, 0, 1, 1, 1, 1, 0]"
  by (simp add: nodeForThread_def two_by_four_def int32_of_int64_def)

text \<open>
  C5. \<open>nodeForThread\<close> is a function of the registry and the thread index. For a registry
  whose total core count is the sum of the core counts of its nodes, positive and below
  \<open>2^31\<close>, it returns the node whose segment holds position \<open>threadIdx mod coreCount\<close> on the
  line of the nodes' core-count-sized segments in registry order. For two nodes with four
  cores each, the indices 0 to 3 go to node 0, 4 to 7 to node 1 and 9 to node 0. A registry
  with a single node returns that node whatever the counts are.
\<close>

theorem nodeForThread_segment_walk:
  assumes "coreCount s = sum_list (map NumaNode.coreCount (nodeVector s))"
    and "0 < coreCount s" "coreCount s < 2 ^ 31"
  shows "nodeForThread s threadIdx = Inr (segment_line (nodeVector s) ! (threadIdx mod coreCount s))
       \<and> map (nodeForThread two_by_four) [0, 1, 2, 3, 4, 5, 6, 7, 9]
           = map Inr [0, 0, 0, 0, 1, 1, 1, 1, 0]
       \<and> (length (nodeVector r) = 1 \<longrightarrow> nodeForThread r i = Inr 0)"
  using nodeForThread_segment[OF assms] nodeForThread_two_by_four
  by (simp add: nodeForThread_def)

theorem nodeForThread_segment_walk_witness:
  "coreCount two_by_four = sum_list (map NumaNode.coreCount (nodeVector two_by_four)) \<and>
   0 < coreCount two_by_four \<and> coreCount two_by_four < 2 ^ 31 \<and>
   length (nodeVector \<lparr>nodeVector = [dummy_node], coreCount = 1\<rparr>) = 1 \<and>
   nodeForThread two_by_four 9
     = Inr (segment_line (nodeVector two_by_four) ! (9 mod coreCount two_by_four)) \<and>
   nodeForThread \<lparr>nodeVector = [dummy_node], coreCount = 1\<rparr> 9 = Inr 0"
  using nodeForThread_segment_walk[of two_by_four 9 "\<lparr>nodeVector = [dummy_node], coreCount = 1\<rparr>" 9]
  by (simp add: two_by_four_def)


subsection \<open>Construction of the registry\<close>

lemma create_dummy_nonempty: "nodeVector (create_dummy s) \<noteq> []"
  by (simp add: create_dummy_def Let_def)

lemma create_dummy_coreCount: "1 \<le> coreCount (create_dummy s)"
  by (simp add: create_dummy_def Let_def)

lemma create_dummy_zero:
  "coreCount s = 0 \<Longrightarrow> create_dummy s = \<lparr>nodeVector = [dummy_node], coreCount = 1\<rparr>"
  by (simp add: create_dummy_def Let_def)

lemma discover_coreless:
  "discover coreless_os =
     \<lparr>nodeVector = [NumaNode_new 0 {0, 1}, NumaNode_new 2 {2, 3}], coreCount = 0\<rparr>"
  by (simp add: discover_def coreless_os_def discover_nodes_def visit_cpu_def Let_def
      enumerate_eq_zip upt_conv_Cons)

text \<open>
  C6. After the construction of \<open>NumaState\<close> the node vector is not empty and the total core
  count is at least 1. If the discovery counted no core, the discovered nodes are discarded
  and the registry is exactly one dummy node, with node number -1 and all bits of its mask
  set, and a total core count of 1.
\<close>

theorem NumaState_new_never_empty:
  "nodeVector (NumaState_new os) \<noteq> [] \<and> 1 \<le> coreCount (NumaState_new os) \<and>
   (coreCount (discover os) = 0 \<longrightarrow>
      nodeVector (NumaState_new os) = [dummy_node] \<and> coreCount (NumaState_new os) = 1) \<and>
   nodeNumber dummy_node = - 1 \<and> cpuBitset dummy_node = UNIV"
  using create_dummy_coreCount[of "discover os"]
  by (simp add: NumaState_new_def create_dummy_nonempty create_dummy_zero
      dummy_node_def NumaNode_new_def)

theorem NumaState_new_never_empty_witness:
  "coreCount (discover coreless_os) = 0 \<and>
   nodeVector (discover coreless_os) \<noteq> [] \<and>
   nodeVector (NumaState_new coreless_os) = [dummy_node] \<and>
   coreCount (NumaState_new coreless_os) = 1"
  using NumaState_new_never_empty[of coreless_os] by (simp add: discover_coreless)

lemma add_core_sum:
  "sum_list (map NumaNode.coreCount (fst (add_core i nodes)))
     = sum_list (map NumaNode.coreCount nodes) + (if snd (add_core i nodes) then 1 else 0)"
  by (induction nodes) (simp_all add: split_def Let_def)

lemma visit_cpu_counted: "counted s \<Longrightarrow> counted (visit_cpu d i s)"
  using add_core_sum[of i "nodeVector s"]
  by (simp add: counted_def visit_cpu_def split_def Let_def split: option.splits)

lemma scan_cpus_counted: "counted s \<Longrightarrow> counted (scan_cpus ds i s)"
  by (induction ds arbitrary: i s) (simp_all add: visit_cpu_counted split: online_file.splits)

lemma discover_nodes_coreless:
  "node \<in> set (discover_nodes os) \<Longrightarrow> NumaNode.coreCount node = 0"
  by (auto simp add: discover_nodes_def List.map_filter_def NumaNode_new_def)

lemma discover_counted: "counted (discover os)"
proof -
  have "sum_list (map NumaNode.coreCount (discover_nodes os)) = 0"
    using discover_nodes_coreless[of _ os] by (simp add: sum_list_eq_0_iff)
  then have "counted \<lparr>nodeVector = discover_nodes os, coreCount = 0\<rparr>"
    by (simp add: counted_def)
  then show ?thesis
    by (simp add: discover_def Let_def counted_def[of "\<lparr>nodeVector = [], coreCount = 0\<rparr>"]
        scan_cpus_counted visit_cpu_counted)
qed

lemma NumaState_new_registry:
  "NumaState_new os = \<lparr>nodeVector = [dummy_node], coreCount = 1\<rparr> \<or>
   (counted (NumaState_new os) \<and> 0 < coreCount (NumaState_new os))"
proof (cases "coreCount (discover os) = 0")
  case True
  then show ?thesis by (simp add: NumaState_new_def create_dummy_zero)
next
  case False
  have c: "counted (discover os)" by (rule discover_counted)
  have "nodeVector (discover os) \<noteq> []" using False c by (auto simp add: counted_def)
  then have "create_dummy (discover os) = discover os"
    using False by (simp add: create_dummy_def Let_def)
  then show ?thesis using False c by (simp add: NumaState_new_def)
qed

end
